theory Spec2Isabelle
  imports Main
begin

section \<open>Model of download\_hybrid.py\<close>

text \<open>
  The script drives a browser through a list of mirrors for every DOI, saves the PDF through
  the browser's download event and records the outcome in a JSON progress file.
  Everything outside the interpreter (the progress file, the clock, the browser, the
  output directory) is an explicit argument of the functions below: every external call
  gets its result, or the exception it raises, from a script or from the state.
  The type \<open>error\<close> stands for the subclasses of Python's \<open>Exception\<close>, which is
  what the \<open>except Exception\<close> clauses of the source catch. An operator interrupt
  (\<open>KeyboardInterrupt\<close>) is asynchronous and is not part of this model; console
  output is not modelled either.
\<close>

subsection \<open>Exceptions, state and external calls\<close>

datatype error = Exception string

text \<open>
  A statement either returns a value or raises, and leaves a state in both cases.
  \<open>and_then\<close> is sequencing, \<open>try_except\<close> is \<open>try: ... except Exception\<close>.
\<close>

type_synonym ('s, 'a) stmt = "'s \<Rightarrow> (error + 'a) \<times> 's"

definition ret :: "'a \<Rightarrow> ('s, 'a) stmt" where
  "ret x w = (Inr x, w)"

definition raise :: "error \<Rightarrow> ('s, 'a) stmt" where
  "raise e w = (Inl e, w)"

definition and_then :: "('s, 'a) stmt \<Rightarrow> ('a \<Rightarrow> ('s, 'b) stmt) \<Rightarrow> ('s, 'b) stmt" where
  "and_then m f w = (case m w of (Inl e, w') \<Rightarrow> (Inl e, w') | (Inr x, w') \<Rightarrow> f x w')"

definition try_except :: "('s, 'a) stmt \<Rightarrow> (error \<Rightarrow> ('s, 'a) stmt) \<Rightarrow> ('s, 'a) stmt" where
  "try_except m h w = (case m w of (Inl e, w') \<Rightarrow> h e w' | (Inr x, w') \<Rightarrow> (Inr x, w'))"

definition modify :: "('s \<Rightarrow> 's) \<Rightarrow> ('s, unit) stmt" where
  "modify f w = (Inr (), f w)"

subsection \<open>Strings\<close>

text \<open>
  A string is the UTF-8 byte string of the Python \<open>str\<close>. \<open>codepoints\<close> cuts it into
  its characters: a byte of the form \<open>10xxxxxx\<close> continues the character before it.
  Python's \<open>len(s)\<close> is \<open>length (codepoints s)\<close> and \<open>s[:n]\<close> is
  \<open>concat (take n (codepoints s))\<close>.
\<close>

definition is_continuation :: "char \<Rightarrow> bool" where
  "is_continuation c \<longleftrightarrow> digit7 c \<and> \<not> digit6 c"

function codepoints :: "string \<Rightarrow> string list" where
  "codepoints [] = []"
| "codepoints (c # cs) =
     (c # takeWhile is_continuation cs) # codepoints (dropWhile is_continuation cs)"
  by pat_completeness auto
termination
  by (relation "measure length") (auto simp: length_dropWhile_le less_Suc_eq_le)

text \<open>
  \<open>str.lower\<close>, on the letters A to Z. The two markers looked for in a title are ASCII,
  so what \<open>lower\<close> does to other letters does not change whether a marker occurs.
\<close>

definition lower_char :: "char \<Rightarrow> char" where
  "lower_char c =
     (case map_of (zip ''ABCDEFGHIJKLMNOPQRSTUVWXYZ'' ''abcdefghijklmnopqrstuvwxyz'') c of
        None \<Rightarrow> c | Some l \<Rightarrow> l)"

definition lower :: "string \<Rightarrow> string" where
  "lower s = map lower_char s"

text \<open>\<open>s.startswith(p)\<close> and \<open>sub in s\<close>.\<close>

definition startswith :: "string \<Rightarrow> string \<Rightarrow> bool" where
  "startswith p s \<longleftrightarrow> take (length p) s = p"

fun contains :: "string \<Rightarrow> string \<Rightarrow> bool" where
  "contains sub [] = (sub = [])"
| "contains sub (c # cs) = (startswith sub (c # cs) \<or> contains sub cs)"

subsection \<open>The progress file and what load makes of it (lines 40-52)\<close>

text \<open>
  What \<open>json.load\<close> can return. An object is the list of its members in the order of the
  text; a key that occurs again overwrites the value and keeps the place.
\<close>

datatype json =
    JNull | JBool bool | JInt int | JFloat string | JStr string
  | JList "json list" | JObj "(string \<times> json) list"

text \<open>
  The progress file on disk: absent, present but \<open>open\<close> raises, present but
  \<open>json.load\<close> raises, or decoded to a JSON value of any shape.
\<close>

datatype pfile = Missing | Unreadable error | Undecodable error | Decoded json

text \<open>
  \<open>self.data\<close> as \<open>load\<close> handles it: the values under the three keys the class reads.
  \<open>update\<close> can put any decoded value there. Other keys an update adds are never read.
\<close>

record pydata =
  raw_downloaded :: json
  raw_failed :: json
  raw_last_update :: json

text \<open>Line 42: the dictionary \<open>__init__\<close> starts with.\<close>

definition default_data :: pydata where
  "default_data = \<lparr>raw_downloaded = JList [], raw_failed = JList [], raw_last_update = JNull\<rparr>"

text \<open>\<open>D[k] = v\<close>; only a string is equal to one of the three keys.\<close>

definition set_key :: "json \<Rightarrow> json \<Rightarrow> pydata \<Rightarrow> pydata" where
  "set_key k v D =
     (if k = JStr ''downloaded'' then D\<lparr>raw_downloaded := v\<rparr>
      else if k = JStr ''failed'' then D\<lparr>raw_failed := v\<rparr>
      else if k = JStr ''last_update'' then D\<lparr>raw_last_update := v\<rparr>
      else D)"

text \<open>The keys of a decoded object, in the order a loop over the dictionary gives them.\<close>

definition obj_keys :: "(string \<times> json) list \<Rightarrow> string list" where
  "obj_keys kvs = rev (remdups (rev (map fst kvs)))"

text \<open>Values that can be a dictionary key, and values that have a length.\<close>

fun hashable :: "json \<Rightarrow> bool" where
  "hashable (JList xs) = False"
| "hashable (JObj kvs) = False"
| "hashable v = True"

fun has_len :: "json \<Rightarrow> bool" where
  "has_len (JStr s) = True"
| "has_len (JList xs) = True"
| "has_len (JObj kvs) = True"
| "has_len v = False"

text \<open>
  How \<open>dict.update\<close> reads one element of a sequence as a key and a value: the element
  must be iterable (a list, a string by its characters, an object by its keys) and have
  exactly two items.
\<close>

definition items_of :: "json \<Rightarrow> error + json list" where
  "items_of v =
     (case v of
        JList xs \<Rightarrow> Inr xs
      | JStr s \<Rightarrow> Inr (map JStr (codepoints s))
      | JObj kvs \<Rightarrow> Inr (map JStr (obj_keys kvs))
      | _ \<Rightarrow> Inl (Exception ''TypeError''))"

definition pair_of :: "json \<Rightarrow> error + json \<times> json" where
  "pair_of v =
     (case items_of v of
        Inl e \<Rightarrow> Inl e
      | Inr [k, x] \<Rightarrow> Inr (k, x)
      | Inr _ \<Rightarrow> Inl (Exception ''ValueError''))"

text \<open>
  \<open>update\<close> with a sequence: element after element; an element that is no pair, or whose
  key cannot be hashed, raises, and what the elements before it stored stays.
\<close>

fun update_seq :: "json list \<Rightarrow> (pydata, unit) stmt" where
  "update_seq [] D = (Inr (), D)"
| "update_seq (v # vs) D =
     (case pair_of v of
        Inl e \<Rightarrow> (Inl e, D)
      | Inr (k, x) \<Rightarrow>
          if hashable k then update_seq vs (set_key k x D)
          else (Inl (Exception ''TypeError''), D))"

text \<open>
  \<open>self.data.update(v)\<close> for a decoded value: an object stores its members, a list or
  a string goes element by element, anything else is not iterable.
\<close>

definition dict_update :: "json \<Rightarrow> (pydata, unit) stmt" where
  "dict_update v D =
     (case v of
        JObj kvs \<Rightarrow> (Inr (), foldl (\<lambda>D (k, x). set_key (JStr k) x D) D kvs)
      | JList xs \<Rightarrow> update_seq xs D
      | JStr s \<Rightarrow> update_seq (map JStr (codepoints s)) D
      | _ \<Rightarrow> (Inl (Exception ''TypeError''), D))"

text \<open>Lines 48-49: \<open>open\<close> and \<open>json.load\<close> on the progress file.\<close>

definition read_progress :: "pfile \<Rightarrow> (pydata, json) stmt" where
  "read_progress f =
     (case f of
        Missing \<Rightarrow> raise (Exception ''FileNotFoundError'')
      | Unreadable e \<Rightarrow> raise e
      | Undecodable e \<Rightarrow> raise e
      | Decoded v \<Rightarrow> ret v)"

text \<open>
  Line 50: the message takes \<open>len\<close> of the two entries, first \<open>downloaded\<close>, then
  \<open>failed\<close>; the printing itself is console output.
\<close>

definition loaded_message :: "(pydata, unit) stmt" where
  "loaded_message D =
     (if has_len (raw_downloaded D) \<and> has_len (raw_failed D) then (Inr (), D)
      else (Inl (Exception ''TypeError''), D))"

text \<open>\<open>load\<close> (lines 45-52), for the progress file \<open>f\<close>.\<close>

definition load :: "pfile \<Rightarrow> (pydata, unit) stmt" where
  "load f =
     (if f \<noteq> Missing
      then try_except
             (and_then (read_progress f) (\<lambda>v.
              and_then (dict_update v) (\<lambda>_. loaded_message)))
             (\<lambda>e. ret ())
      else ret ())"

text \<open>\<open>__init__\<close> (lines 40-43): the dictionary the new object has.\<close>

definition init :: "pfile \<Rightarrow> (error + unit) \<times> pydata" where
  "init f = load f default_data"

subsection \<open>The ledger in use (lines 54-75)\<close>

text \<open>
  The methods below are modelled on dictionaries of the shape \<open>save\<close> writes: lists of
  strings under \<open>downloaded\<close> and \<open>failed\<close>, and \<open>None\<close> or a string under
  \<open>last_update\<close>. \<open>as_ledger\<close> reads such a dictionary, \<open>to_json\<close> is what
  \<open>json.dump\<close> writes for it.
\<close>

record ledger =
  downloaded :: "string list"
  failed :: "string list"
  last_update :: "string option"

definition empty_ledger :: ledger where
  "empty_ledger = \<lparr>downloaded = [], failed = [], last_update = None\<rparr>"

fun strings_of :: "json list \<Rightarrow> string list option" where
  "strings_of [] = Some []"
| "strings_of (JStr s # vs) = (case strings_of vs of None \<Rightarrow> None | Some ss \<Rightarrow> Some (s # ss))"
| "strings_of (v # vs) = None"

definition as_ledger :: "pydata \<Rightarrow> ledger option" where
  "as_ledger D =
     (case (raw_downloaded D, raw_failed D) of
        (JList xs, JList ys) \<Rightarrow>
          (case (strings_of xs, strings_of ys) of
             (Some ds, Some fs) \<Rightarrow>
               (case raw_last_update D of
                  JNull \<Rightarrow> Some \<lparr>downloaded = ds, failed = fs, last_update = None\<rparr>
                | JStr t \<Rightarrow> Some \<lparr>downloaded = ds, failed = fs, last_update = Some t\<rparr>
                | _ \<Rightarrow> None)
           | _ \<Rightarrow> None)
      | _ \<Rightarrow> None)"

definition to_json :: "ledger \<Rightarrow> json" where
  "to_json L = JObj [(''downloaded'', JList (map JStr (downloaded L))),
     (''failed'', JList (map JStr (failed L))),
     (''last_update'', (case last_update L of None \<Rightarrow> JNull | Some t \<Rightarrow> JStr t))]"

text \<open>What the run does to the outside, in order.\<close>

datatype event =
    NewPage string | Goto string | Poll | ClosePage
  | QueryButton | ClickButton | QueryLink | ClickLink
  | QueryEmbed | EmbedSrc | QueryIframe | IframeSrc
  | NewTab | GotoPdf string | CloseTab | SaveAs string
  | MarkDownloadedCall string | MarkFailedCall string | LogMessage string

text \<open>
  The state a run works on: the dictionary of the ledger object, the progress file, the
  sizes of the files in the output directory, the paths without a file on which
  \<open>exists()\<close> raises instead of answering (a name that is too long, say), the local
  variables \<open>downloaded\<close>, \<open>success_count\<close> and \<open>fail_count\<close> of \<open>main\<close>, whether
  its variable \<open>page\<close> is bound yet, and the events so far.
\<close>

record world =
  data :: ledger
  pfile :: pfile
  files :: "string \<Rightarrow> nat option"
  unstatable :: "string \<Rightarrow> error option"
  v_downloaded :: bool
  v_page :: bool
  v_success_count :: nat
  v_fail_count :: nat
  trace :: "event list"

text \<open>
  A statement of the run; \<open>call\<close> is an external call whose result (or exception) the
  script gives.
\<close>

type_synonym 'a prog = "(world, 'a) stmt"

definition emit :: "event \<Rightarrow> unit prog" where
  "emit ev w = (Inr (), w\<lparr>trace := trace w @ [ev]\<rparr>)"

definition call :: "event \<Rightarrow> error + 'a \<Rightarrow> 'a prog" where
  "call ev r w = (r, w\<lparr>trace := trace w @ [ev]\<rparr>)"

subsection \<open>Configuration (lines 27-35)\<close>

definition SCIHUB_MIRRORS :: "string list" where
  "SCIHUB_MIRRORS = [''https://sci-hub.st'', ''https://sci-hub.ru'']"

definition CHECK_INTERVAL :: nat where
  "CHECK_INTERVAL = 1"

definition MAX_WAIT_TIME :: nat where
  "MAX_WAIT_TIME = 180"

subsection \<open>Progress ledger (class DownloadProgress)\<close>

text \<open>
  What happens when \<open>save\<close> writes: the file is written, \<open>open(..., 'w')\<close> raises
  (the file stays as it was), or \<open>json.dump\<close> raises after the file was truncated.
\<close>

datatype write_outcome = Written | OpenRaises error | DumpRaises error

definition write_progress :: "write_outcome \<Rightarrow> unit prog" where
  "write_progress wo w =
     (case wo of
        Written \<Rightarrow> (Inr (), w\<lparr>pfile := Decoded (to_json (data w))\<rparr>)
      | OpenRaises e \<Rightarrow> (Inl e, w)
      | DumpRaises e \<Rightarrow> (Inl e, w\<lparr>pfile := Undecodable e\<rparr>))"

text \<open>
  \<open>save\<close> (lines 54-57), at clock reading \<open>now\<close>. The timestamp is set before the
  file is opened; nothing catches an exception of the write.
\<close>

definition save :: "string \<Rightarrow> write_outcome \<Rightarrow> unit prog" where
  "save now wo =
     and_then (modify (\<lambda>w. w\<lparr>data := (data w)\<lparr>last_update := Some now\<rparr>\<rparr>))
       (\<lambda>_. write_progress wo)"

text \<open>\<open>is_processed\<close> (lines 59-60).\<close>

definition is_processed :: "ledger \<Rightarrow> string \<Rightarrow> bool" where
  "is_processed L doi \<longleftrightarrow> doi \<in> set (downloaded L) \<or> doi \<in> set (failed L)"

text \<open>
  The list updates of \<open>mark_downloaded\<close> (lines 63-66) and \<open>mark_failed\<close>
  (lines 70-71). \<open>list.remove\<close> deletes the first occurrence only.
\<close>

definition add_downloaded :: "string \<Rightarrow> ledger \<Rightarrow> ledger" where
  "add_downloaded doi L =
     (let L1 = (if doi \<notin> set (downloaded L) then L\<lparr>downloaded := downloaded L @ [doi]\<rparr> else L)
      in if doi \<in> set (failed L1) then L1\<lparr>failed := remove1 doi (failed L1)\<rparr> else L1)"

definition add_failed :: "string \<Rightarrow> ledger \<Rightarrow> ledger" where
  "add_failed doi L =
     (if doi \<notin> set (failed L) \<and> doi \<notin> set (downloaded L)
      then L\<lparr>failed := failed L @ [doi]\<rparr> else L)"

text \<open>\<open>mark_downloaded\<close> (lines 62-67) and \<open>mark_failed\<close> (lines 69-72).\<close>

definition mark_downloaded :: "string \<Rightarrow> write_outcome \<Rightarrow> string \<Rightarrow> unit prog" where
  "mark_downloaded now wo doi =
     and_then (modify (\<lambda>w. w\<lparr>data := add_downloaded doi (data w)\<rparr>)) (\<lambda>_. save now wo)"

definition mark_failed :: "string \<Rightarrow> write_outcome \<Rightarrow> string \<Rightarrow> unit prog" where
  "mark_failed now wo doi =
     and_then (modify (\<lambda>w. w\<lparr>data := add_failed doi (data w)\<rparr>)) (\<lambda>_. save now wo)"

text \<open>\<open>get_stats\<close> (lines 74-75).\<close>

definition get_stats :: "ledger \<Rightarrow> nat \<times> nat" where
  "get_stats L = (length (downloaded L), length (failed L))"

text \<open>
  A sequence of calls on one ledger object. Each call comes with the clock reading and
  the outcome of its write. A call whose \<open>save\<close> raises has already changed the
  dictionary, so the sequence goes on from the changed dictionary.
\<close>

datatype mark = MarkDownloaded string | MarkFailed string

fun do_call :: "world \<Rightarrow> mark \<times> string \<times> write_outcome \<Rightarrow> world" where
  "do_call w (MarkDownloaded doi, now, wo) = snd (mark_downloaded now wo doi w)"
| "do_call w (MarkFailed doi, now, wo) = snd (mark_failed now wo doi w)"

definition run_calls :: "(mark \<times> string \<times> write_outcome) list \<Rightarrow> world \<Rightarrow> world" where
  "run_calls cs w = foldl do_call w cs"

text \<open>The invariant of the two lists: no identifier twice in a list, none in both.\<close>

definition ledger_inv :: "ledger \<Rightarrow> bool" where
  "ledger_inv L \<longleftrightarrow>
     distinct (downloaded L) \<and> distinct (failed L) \<and> set (downloaded L) \<inter> set (failed L) = {}"

subsection \<open>File names and the output directory\<close>

text \<open>
  \<open>sanitize_filename\<close> (lines 83-85): the characters of the class \<open>[<>:"/\|?*]\<close>
  become underscores and the name is cut at 200 characters.
\<close>

definition forbidden :: "char list" where
  "forbidden = [CHR ''<'', CHR ''>'', CHR '':'', CHR 0x22, CHR ''/'', CHR 0x5C,
     CHR ''|'', CHR ''?'', CHR ''*'']"

definition sanitize_filename :: "string \<Rightarrow> string" where
  "sanitize_filename filename =
     (let f = map (\<lambda>c. if c \<in> set forbidden then CHR ''_'' else c) filename
      in if length (codepoints f) > 200 then concat (take 200 (codepoints f)) else f)"

text \<open>Line 233: the target file, named within the output directory.\<close>

definition pdf_path_of :: "string \<Rightarrow> string" where
  "pdf_path_of doi = sanitize_filename doi @ ''.pdf''"

text \<open>
  \<open>pdf_path.exists() and pdf_path.stat().st_size > 1000\<close> (lines 117, 131, 168, 236).
  The test raises on a path on which \<open>exists()\<close> raises.
\<close>

definition check_file :: "string \<Rightarrow> bool prog" where
  "check_file p w =
     (case files w p of
        Some n \<Rightarrow> (Inr (n > 1000), w)
      | None \<Rightarrow> (case unstatable w p of Some e \<Rightarrow> (Inl e, w) | None \<Rightarrow> (Inr False, w)))"

text \<open>
  \<open>download.save_as(pdf_path)\<close>: the script says whether it raises and what the target
  file is afterwards (its size, or \<open>None\<close> when there is no file); after a save that
  returned, \<open>exists()\<close> answers for the target.
\<close>

definition save_as :: "string \<Rightarrow> (error + unit) \<times> nat option \<Rightarrow> unit prog" where
  "save_as p r w =
     (fst r, w\<lparr>files := (files w)(p := snd r),
               unstatable := (if fst r = Inr () then (unstatable w)(p := None) else unstatable w),
               trace := trace w @ [SaveAs p]\<rparr>)"

subsection \<open>Payload capturer (download\_with\_browser, lines 103-185)\<close>

text \<open>The results of the external calls of one run of \<open>download_with_browser\<close>.\<close>

record capture_script =
  c_button :: "error + bool"
  c_button_click :: "error + unit"
  c_button_save :: "(error + unit) \<times> nat option"
  c_link :: "error + bool"
  c_link_click :: "error + unit"
  c_link_save :: "(error + unit) \<times> nat option"
  c_embed :: "error + bool"
  c_embed_src :: "error + string option"
  c_iframe :: "error + bool"
  c_iframe_src :: "error + string option"
  c_page_url :: "error + string \<times> string"
  c_new_tab :: "error + unit"
  c_nav :: "error + unit"
  c_nav_save :: "(error + unit) \<times> nat option"
  c_tab_close :: "error + unit"
  c_tab_close_again :: "error + unit"

text \<open>
  The body of each \<open>try\<close> returns \<open>True\<close> when it reached \<open>return True\<close> and
  \<open>False\<close> when it ran to its end.
  Lines 110-118: the save button.
\<close>

definition strategy_button :: "capture_script \<Rightarrow> string \<Rightarrow> bool prog" where
  "strategy_button s p =
     and_then (call QueryButton (c_button s)) (\<lambda>save_button.
       if save_button then
         and_then (call ClickButton (c_button_click s)) (\<lambda>_.
         and_then (save_as p (c_button_save s)) (\<lambda>_.
         check_file p))
       else ret False)"

text \<open>Lines 124-132: the PDF link.\<close>

definition strategy_link :: "capture_script \<Rightarrow> string \<Rightarrow> bool prog" where
  "strategy_link s p =
     and_then (call QueryLink (c_link s)) (\<lambda>pdf_link.
       if pdf_link then
         and_then (call ClickLink (c_link_click s)) (\<lambda>_.
         and_then (save_as p (c_link_save s)) (\<lambda>_.
         check_file p))
       else ret False)"

text \<open>\<open>not pdf_url\<close>: \<open>None\<close> or the empty string.\<close>

definition falsy :: "string option \<Rightarrow> bool" where
  "falsy u \<longleftrightarrow> u = None \<or> u = Some []"

text \<open>Lines 138-145.\<close>

definition find_pdf_url :: "capture_script \<Rightarrow> string option prog" where
  "find_pdf_url s =
     and_then (call QueryEmbed (c_embed s)) (\<lambda>embed.
     and_then (if embed then call EmbedSrc (c_embed_src s) else ret None) (\<lambda>pdf_url.
       if falsy pdf_url then
         and_then (call QueryIframe (c_iframe s)) (\<lambda>iframe.
           if iframe then call IframeSrc (c_iframe_src s) else ret pdf_url)
       else ret pdf_url))"

text \<open>
  Lines 149-156; \<open>c_page_url\<close> is the scheme and the host of \<open>urlparse(page.url)\<close>.
\<close>

definition normalize_url :: "capture_script \<Rightarrow> string \<Rightarrow> string prog" where
  "normalize_url s pdf_url =
     (if startswith ''//'' pdf_url then ret (''https:'' @ pdf_url)
      else if startswith ''/'' pdf_url then
        (\<lambda>w. case c_page_url s of
                Inl e \<Rightarrow> raise e w
              | Inr (scheme, netloc) \<Rightarrow> ret (scheme @ ''://'' @ netloc @ pdf_url) w)
      else ret pdf_url)"

text \<open>
  Lines 138-183. The handler of the inner \<open>try\<close> closes the new tab again; the
  \<open>frame_locator\<close> lookup after it is wrapped in its own \<open>try\<close> and changes nothing.
\<close>

definition strategy_nav :: "capture_script \<Rightarrow> string \<Rightarrow> bool prog" where
  "strategy_nav s p =
     and_then (find_pdf_url s) (\<lambda>pdf_url.
       case pdf_url of
         None \<Rightarrow> ret False
       | Some u \<Rightarrow>
           if u = [] then ret False
           else
             and_then (normalize_url s u) (\<lambda>url.
             and_then (call NewTab (c_new_tab s)) (\<lambda>_.
               try_except
                 (and_then (call (GotoPdf url) (c_nav s)) (\<lambda>_.
                  and_then (save_as p (c_nav_save s)) (\<lambda>_.
                  and_then (call CloseTab (c_tab_close s)) (\<lambda>_.
                  check_file p))))
                 (\<lambda>e. and_then (call CloseTab (c_tab_close_again s)) (\<lambda>_. ret False)))))"

text \<open>The function from its second and from its third \<open>try\<close> on, and as a whole.\<close>

definition from_nav :: "capture_script \<Rightarrow> string \<Rightarrow> bool prog" where
  "from_nav s p =
     and_then (try_except (strategy_nav s p) (\<lambda>e. ret False)) (\<lambda>r.
       if r then ret True else ret False)"

definition from_link :: "capture_script \<Rightarrow> string \<Rightarrow> bool prog" where
  "from_link s p =
     and_then (try_except (strategy_link s p) (\<lambda>e. ret False)) (\<lambda>r.
       if r then ret True else from_nav s p)"

definition download_with_browser :: "capture_script \<Rightarrow> string \<Rightarrow> bool prog" where
  "download_with_browser s p =
     and_then (try_except (strategy_button s p) (\<lambda>e. ret False)) (\<lambda>r.
       if r then ret True else from_link s p)"

subsection \<open>Content detector (the polling loop of main, lines 254-282)\<close>

text \<open>
  What one pass of the loop sees: the title, the four \<open>query_selector\<close> results, and the
  time the pass takes on top of the sleep. Time is counted in whole seconds.
\<close>

record snapshot =
  title :: "error + string"
  has_embed :: "error + bool"
  has_iframe :: "error + bool"
  has_link :: "error + bool"
  has_button :: "error + bool"
  took :: nat

datatype page_state = CHALLENGE | UNAVAILABLE | READY | LOADING

text \<open>Python's \<open>or\<close> on two calls: the second runs only if the first gave nothing.\<close>

fun py_or :: "error + bool \<Rightarrow> error + bool \<Rightarrow> error + bool" where
  "py_or (Inl e) y = Inl e"
| "py_or (Inr True) y = Inr True"
| "py_or (Inr False) y = y"

text \<open>Lines 270-275.\<close>

definition has_content :: "snapshot \<Rightarrow> error + bool" where
  "has_content s = py_or (has_embed s) (py_or (has_iframe s) (py_or (has_link s) (has_button s)))"

text \<open>Lines 258-282: the decision of one pass.\<close>

definition classify :: "snapshot \<Rightarrow> error + page_state" where
  "classify s =
     (case title s of
        Inl e \<Rightarrow> Inl e
      | Inr t \<Rightarrow>
          if contains ''robot'' (lower t) then Inr CHALLENGE
          else if contains ''not available'' (lower t) then Inr UNAVAILABLE
          else (case has_content s of
                  Inl e \<Rightarrow> Inl e
                | Inr c \<Rightarrow> if c then Inr READY else Inr LOADING))"

definition poll :: "snapshot \<Rightarrow> page_state prog" where
  "poll s = call Poll (classify s)"

text \<open>
  The loop (lines 257-282), with the seconds since \<open>wait_start\<close> and the number of the
  pass; the result is \<open>pdf_ready\<close>.
\<close>

function detect :: "(nat \<Rightarrow> snapshot) \<Rightarrow> nat \<Rightarrow> nat \<Rightarrow> bool prog" where
  "detect page elapsed k w =
     (if elapsed < MAX_WAIT_TIME then
        (case poll (page k) w of
           (Inl e, w') \<Rightarrow> (Inl e, w')
         | (Inr CHALLENGE, w') \<Rightarrow>
             detect page (elapsed + took (page k) + CHECK_INTERVAL) (Suc k) w'
         | (Inr UNAVAILABLE, w') \<Rightarrow> (Inr False, w')
         | (Inr READY, w') \<Rightarrow> (Inr True, w')
         | (Inr LOADING, w') \<Rightarrow>
             detect page (elapsed + took (page k) + CHECK_INTERVAL) (Suc k) w')
      else (Inr False, w))"
  by pat_completeness auto
termination
  by (relation "measure (\<lambda>(page, elapsed, k, w). MAX_WAIT_TIME - elapsed)")
    (auto simp: CHECK_INTERVAL_def)

declare detect.simps [simp del]

subsection \<open>Per-identifier orchestrator (main, lines 231-314)\<close>

text \<open>The results of the external calls of one mirror attempt.\<close>

record attempt =
  a_new_page :: "error + unit"
  a_goto :: "error + unit"
  a_polls :: "nat \<Rightarrow> snapshot"
  a_capture :: capture_script
  a_close :: "error + unit"
  a_close_again :: "error + unit"

text \<open>
  Lines 250-294, the body of the \<open>try\<close> for one mirror; the result says whether
  \<open>break\<close> was reached.
\<close>

definition attempt_body :: "string \<Rightarrow> string \<Rightarrow> attempt \<Rightarrow> bool prog" where
  "attempt_body url p a =
     and_then (call (NewPage url) (a_new_page a)) (\<lambda>_.
     and_then (modify (\<lambda>w. w\<lparr>v_page := True\<rparr>)) (\<lambda>_.
     and_then (call (Goto url) (a_goto a)) (\<lambda>_.
     and_then (detect (a_polls a) 0 0) (\<lambda>pdf_ready.
     and_then
       (if pdf_ready then
          and_then (download_with_browser (a_capture a) p) (\<lambda>ok.
            if ok then modify (\<lambda>w. w\<lparr>v_downloaded := True\<rparr>) else ret ())
        else ret ()) (\<lambda>_.
     and_then (call ClosePage (a_close a)) (\<lambda>_.
     (\<lambda>w. ret (v_downloaded w) w)))))))"

text \<open>
  Lines 296-301, the handler: it closes the page inside a \<open>try\<close> of its own. While no
  \<open>new_page\<close> has returned yet in the run, \<open>page\<close> is unbound and the statement raises
  \<open>NameError\<close> without a call. The result says that \<open>break\<close> was not reached.
\<close>

definition attempt_handler :: "attempt \<Rightarrow> bool prog" where
  "attempt_handler a =
     and_then
       (try_except
          (\<lambda>w. if v_page w then call ClosePage (a_close_again a) w
                else raise (Exception ''NameError'') w)
          (\<lambda>e. ret ()))
       (\<lambda>_. ret False)"

text \<open>Lines 244-301: the loop over the mirrors.\<close>

fun mirror_loop :: "string list \<Rightarrow> nat \<Rightarrow> string \<Rightarrow> string \<Rightarrow> (nat \<Rightarrow> attempt) \<Rightarrow> unit prog" where
  "mirror_loop [] i doi p sc = ret ()"
| "mirror_loop (mirror # ms) i doi p sc =
     and_then
       (try_except (attempt_body (mirror @ ''/'' @ doi) p (sc i)) (\<lambda>e. attempt_handler (sc i)))
       (\<lambda>stop. if stop then ret () else mirror_loop ms (Suc i) doi p sc)"

text \<open>
  The results of the external calls for one identifier: the mirror attempts by position,
  the clock reading and the write outcome of the ledger call, and \<open>log_message\<close>.
\<close>

record doi_script =
  d_attempts :: "nat \<Rightarrow> attempt"
  d_now :: string
  d_write :: write_outcome
  d_log :: "error + unit"

text \<open>
  Lines 232-314: one pass of the loop over the pending identifiers. The test of line 236 is
  outside every \<open>try\<close>, so an exception of it leaves the pass.
\<close>

definition process_doi :: "string list \<Rightarrow> string \<Rightarrow> doi_script \<Rightarrow> unit prog" where
  "process_doi mirrors doi sc =
     (let pdf_path = pdf_path_of doi in
      and_then (check_file pdf_path) (\<lambda>present.
      if present then
        and_then (emit (MarkDownloadedCall doi)) (\<lambda>_.
        and_then (mark_downloaded (d_now sc) (d_write sc) doi) (\<lambda>_.
        modify (\<lambda>w. w\<lparr>v_success_count := v_success_count w + 1\<rparr>)))
      else
        and_then (modify (\<lambda>w. w\<lparr>v_downloaded := False\<rparr>)) (\<lambda>_.
        and_then (mirror_loop mirrors 0 doi pdf_path (d_attempts sc)) (\<lambda>_.
        (\<lambda>w. if v_downloaded w then
               and_then (emit (MarkDownloadedCall doi)) (\<lambda>_.
               and_then (mark_downloaded (d_now sc) (d_write sc) doi) (\<lambda>_.
               and_then (modify (\<lambda>w. w\<lparr>v_success_count := v_success_count w + 1\<rparr>)) (\<lambda>_.
               call (LogMessage doi) (d_log sc)))) w
             else
               and_then (emit (MarkFailedCall doi)) (\<lambda>_.
               and_then (mark_failed (d_now sc) (d_write sc) doi) (\<lambda>_.
               and_then (modify (\<lambda>w. w\<lparr>v_fail_count := v_fail_count w + 1\<rparr>)) (\<lambda>_.
               call (LogMessage doi) (d_log sc)))) w)))))"

text \<open>Lines 207 and 231: the pending identifiers and the loop over them.\<close>

definition pending_dois :: "ledger \<Rightarrow> string list \<Rightarrow> string list" where
  "pending_dois L dois = filter (\<lambda>doi. \<not> is_processed L doi) dois"

fun main_loop :: "string list \<Rightarrow> (string \<times> doi_script) list \<Rightarrow> unit prog" where
  "main_loop mirrors [] = ret ()"
| "main_loop mirrors ((doi, sc) # rest) =
     and_then (process_doi mirrors doi sc) (\<lambda>_. main_loop mirrors rest)"

text \<open>The events of a run that belong to the browser.\<close>

fun browser_event :: "event \<Rightarrow> bool" where
  "browser_event (MarkDownloadedCall d) = False"
| "browser_event (MarkFailedCall d) = False"
| "browser_event (LogMessage d) = False"
| "browser_event ev = True"

subsection \<open>Sample inputs and proof notions\<close>

text \<open>A state before anything happened: no progress file, an empty output directory.\<close>

definition fresh_world :: world where
  "fresh_world = \<lparr>data = empty_ledger, pfile = Missing, files = (\<lambda>_. None),
     unstatable = (\<lambda>_. None), v_downloaded = False, v_page = False,
     v_success_count = 0, v_fail_count = 0, trace = []\<rparr>"

text \<open>A page on which every query finds nothing and no call raises.\<close>

definition quiet_capture :: capture_script where
  "quiet_capture = \<lparr>c_button = Inr False, c_button_click = Inr (), c_button_save = (Inr (), None),
     c_link = Inr False, c_link_click = Inr (), c_link_save = (Inr (), None),
     c_embed = Inr False, c_embed_src = Inr None, c_iframe = Inr False, c_iframe_src = Inr None,
     c_page_url = Inr (''https'', ''sci-hub.st''), c_new_tab = Inr (), c_nav = Inr (),
     c_nav_save = (Inr (), None), c_tab_close = Inr (), c_tab_close_again = Inr ()\<rparr>"

text \<open>A page that is still loading, a mirror that says the article is not available, a mirror
  whose page shows the save button and whose download stores 5000 bytes, and the script of
  an identifier for which every mirror is of the second kind.\<close>

definition plain_snapshot :: snapshot where
  "plain_snapshot = \<lparr>title = Inr ''Sci-Hub'', has_embed = Inr False, has_iframe = Inr False,
     has_link = Inr False, has_button = Inr False, took = 0\<rparr>"

definition unavailable_attempt :: attempt where
  "unavailable_attempt = \<lparr>a_new_page = Inr (), a_goto = Inr (),
     a_polls = (\<lambda>_. plain_snapshot\<lparr>title := Inr ''Sci-Hub: article not available''\<rparr>),
     a_capture = quiet_capture, a_close = Inr (), a_close_again = Inr ()\<rparr>"

definition ready_attempt :: attempt where
  "ready_attempt = \<lparr>a_new_page = Inr (), a_goto = Inr (),
     a_polls = (\<lambda>_. plain_snapshot\<lparr>has_button := Inr True\<rparr>),
     a_capture = quiet_capture\<lparr>c_button := Inr True, c_button_save := (Inr (), Some 5000)\<rparr>,
     a_close = Inr (), a_close_again = Inr ()\<rparr>"

definition unavailable_script :: doi_script where
  "unavailable_script = \<lparr>d_attempts = (\<lambda>_. unavailable_attempt), d_now = ''2026-01-01T00:00:00'',
     d_write = Written, d_log = Inr ()\<rparr>"

text \<open>
  \<open>valid_file fs p\<close>: the file \<open>p\<close> is there with more than 1000 bytes.
  \<open>emits P m\<close>: the statement \<open>m\<close> only appends events, all of kind \<open>P\<close>.
  \<open>validates p m\<close>: when \<open>m\<close> returns \<open>True\<close>, it leaves a valid file \<open>p\<close>.
\<close>

definition valid_file :: "(string \<Rightarrow> nat option) \<Rightarrow> string \<Rightarrow> bool" where
  "valid_file fs p = (case fs p of None \<Rightarrow> False | Some n \<Rightarrow> n > 1000)"

definition emits :: "(event \<Rightarrow> bool) \<Rightarrow> 'a prog \<Rightarrow> bool" where
  "emits P m \<longleftrightarrow> (\<forall>w. \<exists>evs. trace (snd (m w)) = trace w @ evs \<and> list_all P evs)"

definition validates :: "string \<Rightarrow> bool prog \<Rightarrow> bool" where
  "validates p m \<longleftrightarrow> (\<forall>w. fst (m w) = Inr True \<longrightarrow> valid_file (files (snd (m w))) p)"

section \<open>The ledger\<close>

lemma data_save:
  "downloaded (data (snd (save now wo w))) = downloaded (data w)"
  "failed (data (snd (save now wo w))) = failed (data w)"
  "last_update (data (snd (save now wo w))) = Some now"
  by (simp_all add: save_def and_then_def modify_def write_progress_def split: write_outcome.splits)

lemma data_mark_downloaded:
  "downloaded (data (snd (mark_downloaded now wo doi w))) = downloaded (add_downloaded doi (data w))"
  "failed (data (snd (mark_downloaded now wo doi w))) = failed (add_downloaded doi (data w))"
  "last_update (data (snd (mark_downloaded now wo doi w))) = Some now"
  by (simp_all add: mark_downloaded_def and_then_def modify_def data_save)

lemma data_mark_failed:
  "downloaded (data (snd (mark_failed now wo doi w))) = downloaded (add_failed doi (data w))"
  "failed (data (snd (mark_failed now wo doi w))) = failed (add_failed doi (data w))"
  "last_update (data (snd (mark_failed now wo doi w))) = Some now"
  by (simp_all add: mark_failed_def and_then_def modify_def data_save)

lemma ledger_inv_add_downloaded: "ledger_inv L \<Longrightarrow> ledger_inv (add_downloaded doi L)"
  by (auto simp: ledger_inv_def add_downloaded_def Let_def)

lemma ledger_inv_add_failed: "ledger_inv L \<Longrightarrow> ledger_inv (add_failed doi L)"
  by (auto simp: ledger_inv_def add_failed_def)

lemma ledger_inv_do_call: "ledger_inv (data w) \<Longrightarrow> ledger_inv (data (do_call w c))"
proof -
  assume inv: "ledger_inv (data w)"
  obtain k now wo where c: "c = (k, now, wo)" by (cases c)
  show ?thesis
  proof (cases k)
    case (MarkDownloaded d)
    have "ledger_inv (add_downloaded d (data w))" using inv by (rule ledger_inv_add_downloaded)
    then show ?thesis using c MarkDownloaded
      by (simp add: ledger_inv_def data_mark_downloaded)
  next
    case (MarkFailed d)
    have "ledger_inv (add_failed d (data w))" using inv by (rule ledger_inv_add_failed)
    then show ?thesis using c MarkFailed
      by (simp add: ledger_inv_def data_mark_failed)
  qed
qed

lemma ledger_inv_foldl: "ledger_inv (data w) \<Longrightarrow> ledger_inv (data (foldl do_call w cs))"
  by (induction cs arbitrary: w) (simp_all add: ledger_inv_do_call)

lemma ledger_inv_run_calls: "ledger_inv (data (run_calls cs (w\<lparr>data := empty_ledger\<rparr>)))"
  unfolding run_calls_def
  by (rule ledger_inv_foldl) (simp add: ledger_inv_def empty_ledger_def)

text \<open>
  C1. Starting from the empty ledger, after any sequence of \<open>mark_downloaded\<close> and
  \<open>mark_failed\<close> calls (whatever their clock readings and write outcomes), an identifier
  is processed iff it is in exactly one of the two lists, and it is never in both.
\<close>

theorem ledger_processed_iff_exactly_one:
  "(is_processed (data (run_calls cs (w\<lparr>data := empty_ledger\<rparr>))) d
      = ((d \<in> set (downloaded (data (run_calls cs (w\<lparr>data := empty_ledger\<rparr>)))))
           \<noteq> (d \<in> set (failed (data (run_calls cs (w\<lparr>data := empty_ledger\<rparr>)))))))
   \<and> \<not> (d \<in> set (downloaded (data (run_calls cs (w\<lparr>data := empty_ledger\<rparr>))))
        \<and> d \<in> set (failed (data (run_calls cs (w\<lparr>data := empty_ledger\<rparr>)))))"
  using ledger_inv_run_calls [of cs w]
  by (auto simp: ledger_inv_def is_processed_def)

text \<open>
  C10. Starting from the empty ledger, after any sequence of \<open>mark_downloaded\<close> and
  \<open>mark_failed\<close> calls, neither list holds an identifier twice.
\<close>

theorem ledger_lists_distinct:
  "distinct (downloaded (data (run_calls cs (w\<lparr>data := empty_ledger\<rparr>))))
   \<and> distinct (failed (data (run_calls cs (w\<lparr>data := empty_ledger\<rparr>))))"
  using ledger_inv_run_calls [of cs w]
  by (simp add: ledger_inv_def)

lemma remove1_once: "count_list xs d \<le> 1 \<Longrightarrow> d \<notin> set (remove1 d xs)"
  by (induction xs) (auto simp: count_list_0_iff split: if_splits)

text \<open>
  C2, amended. \<open>mark_failed(d)\<close> on a ledger that has \<open>d\<close> in the downloaded list
  leaves both lists as they are. \<open>mark_downloaded(d)\<close> on a ledger whose failed list
  holds \<open>d\<close> exactly once appends \<open>d\<close> to the downloaded list unless it is there
  already, changes nothing else in that list, and takes the one occurrence of \<open>d\<close> out of
  the failed list, so that \<open>d\<close> is downloaded and no longer failed.
\<close>

theorem mark_priority:
  "(d \<in> set (downloaded (data w)) \<longrightarrow>
      downloaded (data (snd (mark_failed now wo d w))) = downloaded (data w)
      \<and> failed (data (snd (mark_failed now wo d w))) = failed (data w))
   \<and> (d \<in> set (failed (data w)) \<and> count_list (failed (data w)) d \<le> 1 \<longrightarrow>
      downloaded (data (snd (mark_downloaded now wo d w)))
        = (if d \<in> set (downloaded (data w)) then downloaded (data w)
           else downloaded (data w) @ [d])
      \<and> failed (data (snd (mark_downloaded now wo d w))) = remove1 d (failed (data w))
      \<and> d \<in> set (downloaded (data (snd (mark_downloaded now wo d w))))
      \<and> d \<notin> set (failed (data (snd (mark_downloaded now wo d w)))))"
  by (auto simp: data_mark_failed data_mark_downloaded add_failed_def add_downloaded_def Let_def
      remove1_once)

theorem mark_priority_witness:
  "''a'' \<in> set (downloaded (data (fresh_world\<lparr>data := \<lparr>downloaded = [''a''], failed = [''c'', ''b''], last_update = None\<rparr>\<rparr>)))
   \<and> downloaded (data (snd (mark_failed ''t'' Written ''a''
        (fresh_world\<lparr>data := \<lparr>downloaded = [''a''], failed = [''c'', ''b''], last_update = None\<rparr>\<rparr>)))) = [''a'']
   \<and> failed (data (snd (mark_failed ''t'' Written ''a''
        (fresh_world\<lparr>data := \<lparr>downloaded = [''a''], failed = [''c'', ''b''], last_update = None\<rparr>\<rparr>)))) = [''c'', ''b'']
   \<and> ''b'' \<in> set (failed (data (fresh_world\<lparr>data := \<lparr>downloaded = [''a''], failed = [''c'', ''b''], last_update = None\<rparr>\<rparr>)))
   \<and> count_list (failed (data (fresh_world\<lparr>data := \<lparr>downloaded = [''a''], failed = [''c'', ''b''], last_update = None\<rparr>\<rparr>))) ''b'' \<le> 1
   \<and> downloaded (data (snd (mark_downloaded ''t'' Written ''b''
        (fresh_world\<lparr>data := \<lparr>downloaded = [''a''], failed = [''c'', ''b''], last_update = None\<rparr>\<rparr>)))) = [''a'', ''b'']
   \<and> failed (data (snd (mark_downloaded ''t'' Written ''b''
        (fresh_world\<lparr>data := \<lparr>downloaded = [''a''], failed = [''c'', ''b''], last_update = None\<rparr>\<rparr>)))) = [''c'']"
  using mark_priority [of "''a''" "fresh_world\<lparr>data := \<lparr>downloaded = [''a''], failed = [''c'', ''b''], last_update = None\<rparr>\<rparr>" "''t''" Written]
    mark_priority [of "''b''" "fresh_world\<lparr>data := \<lparr>downloaded = [''a''], failed = [''c'', ''b''], last_update = None\<rparr>\<rparr>" "''t''" Written]
  by simp

text \<open>
  C2 as stated, for every ledger state, fails where the failed list holds the identifier
  twice: \<open>list.remove\<close> takes out one occurrence and the identifier stays failed.
\<close>

theorem mark_downloaded_duplicate_counterexample:
  "''x'' \<in> set (failed (data (fresh_world\<lparr>data := \<lparr>downloaded = [], failed = [''x'', ''x''], last_update = None\<rparr>\<rparr>)))
   \<and> ''x'' \<in> set (failed (data (snd (mark_downloaded ''t'' Written ''x''
       (fresh_world\<lparr>data := \<lparr>downloaded = [], failed = [''x'', ''x''], last_update = None\<rparr>\<rparr>)))))"
  by (simp add: mark_downloaded_def save_def and_then_def modify_def write_progress_def
      add_downloaded_def)

text \<open>
  C9, amended. A second \<open>mark_downloaded(d)\<close> leaves the downloaded list as the first
  call left it, and the failed list too when it held \<open>d\<close> at most once before the first
  call; \<open>last_update\<close> is the clock reading of the second call.
\<close>

theorem mark_downloaded_twice:
  "downloaded (data (snd (mark_downloaded now_b wo_b d (snd (mark_downloaded now_a wo_a d w)))))
     = downloaded (data (snd (mark_downloaded now_a wo_a d w)))
   \<and> (count_list (failed (data w)) d \<le> 1 \<longrightarrow>
        failed (data (snd (mark_downloaded now_b wo_b d (snd (mark_downloaded now_a wo_a d w)))))
          = failed (data (snd (mark_downloaded now_a wo_a d w))))
   \<and> last_update (data (snd (mark_downloaded now_b wo_b d (snd (mark_downloaded now_a wo_a d w))))) = Some now_b"
  using remove1_once [of "failed (data w)" d]
  by (auto simp: data_mark_downloaded add_downloaded_def Let_def)

theorem mark_downloaded_twice_witness:
  "count_list (failed (data (fresh_world\<lparr>data := \<lparr>downloaded = [], failed = [''x''], last_update = None\<rparr>\<rparr>))) ''x'' \<le> 1
   \<and> failed (data (snd (mark_downloaded ''t2'' Written ''x'' (snd (mark_downloaded ''t1'' Written ''x''
        (fresh_world\<lparr>data := \<lparr>downloaded = [], failed = [''x''], last_update = None\<rparr>\<rparr>))))))
      = failed (data (snd (mark_downloaded ''t1'' Written ''x''
        (fresh_world\<lparr>data := \<lparr>downloaded = [], failed = [''x''], last_update = None\<rparr>\<rparr>))))
   \<and> last_update (data (snd (mark_downloaded ''t2'' Written ''x'' (snd (mark_downloaded ''t1'' Written ''x''
        (fresh_world\<lparr>data := \<lparr>downloaded = [], failed = [''x''], last_update = None\<rparr>\<rparr>))))))
      = Some ''t2''"
  using mark_downloaded_twice [where d = "''x''" and now_a = "''t1''" and now_b = "''t2''"
      and wo_a = Written and wo_b = Written
      and w = "fresh_world\<lparr>data := \<lparr>downloaded = [], failed = [''x''], last_update = None\<rparr>\<rparr>"]
  by simp

text \<open>
  C9 as stated fails: from the empty ledger the second call changes \<open>last_update\<close>, and
  on a failed list that holds the identifier twice it also changes the failed list.
\<close>

theorem mark_downloaded_twice_counterexample:
  "data (snd (mark_downloaded ''2026-01-01T00:00:02'' Written ''x''
       (snd (mark_downloaded ''2026-01-01T00:00:01'' Written ''x'' fresh_world))))
     \<noteq> data (snd (mark_downloaded ''2026-01-01T00:00:01'' Written ''x'' fresh_world))
   \<and> failed (data (snd (mark_downloaded ''t'' Written ''x'' (snd (mark_downloaded ''t'' Written ''x''
       (fresh_world\<lparr>data := \<lparr>downloaded = [], failed = [''x'', ''x''], last_update = None\<rparr>\<rparr>))))))
     \<noteq> failed (data (snd (mark_downloaded ''t'' Written ''x''
       (fresh_world\<lparr>data := \<lparr>downloaded = [], failed = [''x'', ''x''], last_update = None\<rparr>\<rparr>))))"
  by (simp add: mark_downloaded_def save_def and_then_def modify_def write_progress_def
      add_downloaded_def fresh_world_def empty_ledger_def)



lemma strings_of_map_JStr: "strings_of (map JStr xs) = Some xs"
  by (induction xs) simp_all

text \<open>
  Reading back what \<open>save\<close> wrote gives the ledger that was saved, and the defaults of
  \<open>__init__\<close> are the empty ledger.
\<close>

lemma init_reads_back: "as_ledger (snd (init (Decoded (to_json L)))) = Some L"
proof -
  let ?D = "\<lparr>raw_downloaded = JList (map JStr (downloaded L)),
      raw_failed = JList (map JStr (failed L)),
      raw_last_update = (case last_update L of None \<Rightarrow> JNull | Some t \<Rightarrow> JStr t)\<rparr>"
  have u: "dict_update (to_json L) default_data = (Inr (), ?D)"
    by (simp add: dict_update_def to_json_def set_key_def default_data_def)
  have m: "loaded_message ?D = (Inr (), ?D)"
    by (simp add: loaded_message_def)
  have "snd (init (Decoded (to_json L))) = ?D"
    by (simp add: init_def load_def try_except_def and_then_def read_progress_def ret_def u m)
  then show ?thesis
    by (cases "last_update L") (simp_all add: as_ledger_def strings_of_map_JStr)
qed





section \<open>The payload capturer\<close>

lemma emitsI: "(\<And>w. \<exists>evs. trace (snd (m w)) = trace w @ evs \<and> list_all P evs) \<Longrightarrow> emits P m"
  by (simp add: emits_def)

lemma emitsD: "emits P m \<Longrightarrow> \<exists>evs. trace (snd (m w)) = trace w @ evs \<and> list_all P evs"
  by (simp add: emits_def)

lemma emits_ret: "emits P (ret x)"
  by (simp add: emits_def ret_def)

lemma emits_raise: "emits P (raise e)"
  by (simp add: emits_def raise_def)

lemma emits_call: "P ev \<Longrightarrow> emits P (call ev r)"
  by (simp add: emits_def call_def)

lemma emits_emit: "P ev \<Longrightarrow> emits P (emit ev)"
  by (simp add: emits_def emit_def)

lemma emits_save_as: "P (SaveAs p) \<Longrightarrow> emits P (save_as p r)"
  by (simp add: emits_def save_as_def)

lemma emits_check_file: "emits P (check_file p)"
  by (simp add: emits_def check_file_def split: option.splits)

lemma emits_modify: "(\<And>w. trace (f w) = trace w) \<Longrightarrow> emits P (modify f)"
  by (simp add: emits_def modify_def)

lemma emits_and_then:
  assumes m: "emits P m" and f: "\<And>x. emits P (f x)"
  shows "emits P (and_then m f)"
proof (rule emitsI)
  fix w
  obtain r w1 where mw: "m w = (r, w1)" by (cases "m w")
  from emitsD [OF m, of w] mw obtain evs where
    e1: "trace w1 = trace w @ evs" "list_all P evs" by auto
  show "\<exists>evs. trace (snd (and_then m f w)) = trace w @ evs \<and> list_all P evs"
  proof (cases r)
    case (Inl e)
    then show ?thesis using mw e1 by (simp add: and_then_def)
  next
    case (Inr x)
    from emitsD [OF f, of x w1] obtain evs2 where
      e2: "trace (snd (f x w1)) = trace w1 @ evs2" "list_all P evs2" by auto
    then show ?thesis using mw e1 Inr by (simp add: and_then_def)
  qed
qed

lemma emits_try_except:
  assumes m: "emits P m" and h: "\<And>e. emits P (h e)"
  shows "emits P (try_except m h)"
proof (rule emitsI)
  fix w
  obtain r w1 where mw: "m w = (r, w1)" by (cases "m w")
  from emitsD [OF m, of w] mw obtain evs where
    e1: "trace w1 = trace w @ evs" "list_all P evs" by auto
  show "\<exists>evs. trace (snd (try_except m h w)) = trace w @ evs \<and> list_all P evs"
  proof (cases r)
    case (Inr x)
    then show ?thesis using mw e1 by (simp add: try_except_def)
  next
    case (Inl e)
    from emitsD [OF h, of e w1] obtain evs2 where
      e2: "trace (snd (h e w1)) = trace w1 @ evs2" "list_all P evs2" by auto
    then show ?thesis using mw e1 Inl by (simp add: try_except_def)
  qed
qed

lemma emits_if: "emits P a \<Longrightarrow> emits P b \<Longrightarrow> emits P (if c then a else b)"
  by simp

lemmas emits_intros = emits_and_then emits_try_except emits_ret emits_raise emits_call
  emits_emit emits_save_as emits_check_file emits_if

lemma emits_strategy_button: "emits browser_event (strategy_button s p)"
  unfolding strategy_button_def by (intro emits_intros) simp_all

lemma emits_strategy_link: "emits browser_event (strategy_link s p)"
  unfolding strategy_link_def by (intro emits_intros) simp_all

lemma emits_find_pdf_url: "emits browser_event (find_pdf_url s)"
  unfolding find_pdf_url_def by (intro emits_intros) simp_all

lemma emits_normalize_url: "emits browser_event (normalize_url s u)"
  by (simp add: normalize_url_def emits_def ret_def raise_def split: sum.splits prod.splits)

lemma emits_strategy_nav: "emits browser_event (strategy_nav s p)"
  unfolding strategy_nav_def
  by (intro emits_and_then emits_find_pdf_url)
    (auto split: option.splits intro!: emits_intros emits_normalize_url)

lemma emits_from_nav: "emits browser_event (from_nav s p)"
  unfolding from_nav_def by (intro emits_intros emits_strategy_nav)

lemma emits_from_link: "emits browser_event (from_link s p)"
  unfolding from_link_def by (intro emits_intros emits_strategy_link emits_from_nav)

lemma emits_download_with_browser: "emits browser_event (download_with_browser s p)"
  unfolding download_with_browser_def
  by (intro emits_intros emits_strategy_button emits_from_link)

lemma validatesD: "validates p m \<Longrightarrow> m w = (Inr True, w1) \<Longrightarrow> valid_file (files w1) p"
  unfolding validates_def
proof -
  assume a: "\<forall>w. fst (m w) = Inr True \<longrightarrow> valid_file (files (snd (m w))) p"
    and b: "m w = (Inr True, w1)"
  from a have "fst (m w) = Inr True \<longrightarrow> valid_file (files (snd (m w))) p" ..
  then show "valid_file (files w1) p" using b by simp
qed

lemma validates_check_file: "validates p (check_file p)"
  by (simp add: validates_def check_file_def valid_file_def split: option.splits)

lemma validates_ret_False: "validates p (ret False)"
  by (simp add: validates_def ret_def)

lemma validates_and_then: "(\<And>x. validates p (f x)) \<Longrightarrow> validates p (and_then m f)"
  by (auto simp: validates_def and_then_def split: prod.splits sum.splits)

lemma validates_try_except:
  assumes m: "validates p m" and h: "\<And>e. validates p (h e)"
  shows "validates p (try_except m h)"
  unfolding validates_def
proof (intro allI impI)
  fix w
  assume t: "fst (try_except m h w) = Inr True"
  obtain r w1 where mw: "m w = (r, w1)" by (cases "m w")
  show "valid_file (files (snd (try_except m h w))) p"
  proof (cases r)
    case (Inl e)
    then show ?thesis using h [of e] t mw by (simp add: validates_def try_except_def)
  next
    case (Inr b)
    then show ?thesis using validatesD [OF m, of w w1] t mw by (auto simp: try_except_def)
  qed
qed

lemma validates_if: "validates p a \<Longrightarrow> validates p b \<Longrightarrow> validates p (if c then a else b)"
  by simp

lemma validates_fallback:
  assumes m: "validates p m" and n: "validates p n"
  shows "validates p (and_then (try_except m (\<lambda>e. ret False)) (\<lambda>r. if r then ret True else n))"
  unfolding validates_def
proof (intro allI impI)
  fix w
  let ?f = "and_then (try_except m (\<lambda>e. ret False)) (\<lambda>r. if r then ret True else n)"
  assume t: "fst (?f w) = Inr True"
  obtain r w1 where mw: "m w = (r, w1)" by (cases "m w")
  show "valid_file (files (snd (?f w))) p"
  proof (cases "r = Inr True")
    case True
    then show ?thesis using validatesD [OF m, of w w1] mw
      by (auto simp: and_then_def try_except_def ret_def)
  next
    case False
    then have "?f w = n w1" using mw
      by (cases r) (auto simp: and_then_def try_except_def ret_def)
    then show ?thesis using n t by (simp add: validates_def)
  qed
qed

lemmas validates_intros = validates_and_then validates_try_except validates_check_file
  validates_ret_False validates_if

lemma validates_strategy_button: "validates p (strategy_button s p)"
  unfolding strategy_button_def by (intro validates_intros)

lemma validates_strategy_link: "validates p (strategy_link s p)"
  unfolding strategy_link_def by (intro validates_intros)

lemma validates_strategy_nav: "validates p (strategy_nav s p)"
  unfolding strategy_nav_def
  by (rule validates_and_then) (auto split: option.splits intro!: validates_intros)

lemma validates_from_nav: "validates p (from_nav s p)"
  unfolding from_nav_def
  using validates_fallback [OF validates_strategy_nav validates_ret_False] .

lemma validates_from_link: "validates p (from_link s p)"
  unfolding from_link_def
  by (rule validates_fallback [OF validates_strategy_link validates_from_nav])

lemma validates_download_with_browser: "validates p (download_with_browser s p)"
  unfolding download_with_browser_def
  by (rule validates_fallback [OF validates_strategy_button validates_from_link])

lemma first_event_call:
  assumes "\<And>x. emits P (f x)"
  shows "\<exists>evs. trace (snd (and_then (call ev r) f w)) = trace w @ ev # evs"
proof (cases r)
  case (Inl e)
  then show ?thesis by (simp add: and_then_def call_def)
next
  case (Inr x)
  from emitsD [OF assms, of x "w\<lparr>trace := trace w @ [ev]\<rparr>"]
  show ?thesis using Inr by (auto simp: and_then_def call_def)
qed

lemma first_event_fallback:
  assumes m: "\<And>w. \<exists>evs. trace (snd (m w)) = trace w @ ev # evs" and n: "emits P n"
  shows "\<exists>evs. trace (snd (and_then (try_except m (\<lambda>e. ret False))
           (\<lambda>r. if r then ret True else n) w)) = trace w @ ev # evs"
proof -
  obtain r w1 where mw: "m w = (r, w1)" by (cases "m w")
  from m [of w] mw obtain evs where e1: "trace w1 = trace w @ ev # evs" by auto
  from emitsD [OF n, of w1] obtain evs2 where e2: "trace (snd (n w1)) = trace w1 @ evs2" by auto
  show ?thesis using mw e1 e2
    by (cases r) (auto simp: and_then_def try_except_def ret_def)
qed

lemma first_event_strategy_link:
  "\<exists>evs. trace (snd (strategy_link s p w)) = trace w @ QueryLink # evs"
  unfolding strategy_link_def
  by (rule first_event_call [where P = browser_event]) (intro emits_intros; simp)

lemma first_event_from_link:
  "\<exists>evs. trace (snd (from_link s p w)) = trace w @ QueryLink # evs"
  unfolding from_link_def
  by (rule first_event_fallback [OF first_event_strategy_link emits_from_nav])

lemma first_event_strategy_nav:
  "\<exists>evs. trace (snd (strategy_nav s p w)) = trace w @ QueryEmbed # evs"
proof -
  have "\<exists>evs. trace (snd (and_then (find_pdf_url s) f w)) = trace w @ QueryEmbed # evs"
    if f: "\<And>x. emits browser_event (f x)" for f :: "string option \<Rightarrow> bool prog"
  proof -
    obtain r w1 where mw: "find_pdf_url s w = (r, w1)" by (cases "find_pdf_url s w")
    have "\<exists>evs. trace (snd (find_pdf_url s w)) = trace w @ QueryEmbed # evs"
      unfolding find_pdf_url_def
      by (rule first_event_call [where P = browser_event]) (intro emits_intros; simp)
    then obtain evs where e1: "trace w1 = trace w @ QueryEmbed # evs" using mw by auto
    show ?thesis
    proof (cases r)
      case (Inl e)
      then show ?thesis using mw e1 by (simp add: and_then_def)
    next
      case (Inr x)
      from emitsD [OF f, of x w1] obtain evs2 where "trace (snd (f x w1)) = trace w1 @ evs2"
        by auto
      then show ?thesis using mw e1 Inr by (simp add: and_then_def)
    qed
  qed
  then show ?thesis
    unfolding strategy_nav_def
    by (rule meta_mp [rotated]) (auto split: option.splits intro!: emits_intros emits_normalize_url)
qed

lemma first_event_from_nav:
  "\<exists>evs. trace (snd (from_nav s p w)) = trace w @ QueryEmbed # evs"
  unfolding from_nav_def
  by (rule first_event_fallback [OF first_event_strategy_nav emits_ret])

lemma fallback_not_True:
  "fst (m w) \<noteq> Inr True \<Longrightarrow>
     and_then (try_except m (\<lambda>e. ret False)) (\<lambda>r. if r then ret True else n) w = n (snd (m w))"
  by (cases "m w") (auto simp: and_then_def try_except_def ret_def split: sum.splits)

lemma fallback_returns:
  "(\<And>w. \<exists>b. fst (n w) = Inr b) \<Longrightarrow>
     \<exists>b. fst (and_then (try_except m (\<lambda>e. ret False)) (\<lambda>r. if r then ret True else n) w) = Inr b"
  by (cases "m w") (auto simp: and_then_def try_except_def ret_def split: sum.splits)

lemma from_nav_returns: "\<exists>b. fst (from_nav s p w) = Inr b"
  unfolding from_nav_def by (rule fallback_returns) (auto simp: ret_def)

lemma from_link_returns: "\<exists>b. fst (from_link s p w) = Inr b"
  unfolding from_link_def by (rule fallback_returns) (rule from_nav_returns)

lemma download_with_browser_returns: "\<exists>b. fst (download_with_browser s p w) = Inr b"
  unfolding download_with_browser_def by (rule fallback_returns) (rule from_link_returns)

lemma from_nav_False:
  "fst (strategy_nav s p w) \<noteq> Inr True \<Longrightarrow> fst (from_nav s p w) = Inr False"
  unfolding from_nav_def by (simp add: fallback_not_True ret_def)

text \<open>
  C6. \<open>download_with_browser\<close> always returns a boolean. When the first strategy raises,
  the function goes on as from the second strategy, whose query is the next event; when the
  second raises, it goes on with the third; when none of the three reaches
  \<open>return True\<close>, the result is \<open>False\<close>.
\<close>

theorem capturer_absorbs_exceptions:
  "(\<exists>b. fst (download_with_browser s p w) = Inr b)
   \<and> (fst (strategy_button s p w) = Inl e \<longrightarrow>
        download_with_browser s p w = from_link s p (snd (strategy_button s p w))
        \<and> (\<exists>evs. trace (snd (download_with_browser s p w))
               = trace (snd (strategy_button s p w)) @ QueryLink # evs))
   \<and> (fst (strategy_link s p w) = Inl e \<longrightarrow>
        from_link s p w = from_nav s p (snd (strategy_link s p w))
        \<and> (\<exists>evs. trace (snd (from_link s p w))
               = trace (snd (strategy_link s p w)) @ QueryEmbed # evs))
   \<and> (fst (strategy_button s p w) \<noteq> Inr True
        \<and> fst (strategy_link s p (snd (strategy_button s p w))) \<noteq> Inr True
        \<and> fst (strategy_nav s p (snd (strategy_link s p (snd (strategy_button s p w))))) \<noteq> Inr True
      \<longrightarrow> fst (download_with_browser s p w) = Inr False)"
proof (intro conjI impI)
  show "\<exists>b. fst (download_with_browser s p w) = Inr b"
    by (rule download_with_browser_returns)
next
  assume "fst (strategy_button s p w) = Inl e"
  then show eq: "download_with_browser s p w = from_link s p (snd (strategy_button s p w))"
    unfolding download_with_browser_def by (simp add: fallback_not_True)
  show "\<exists>evs. trace (snd (download_with_browser s p w))
               = trace (snd (strategy_button s p w)) @ QueryLink # evs"
    unfolding eq by (rule first_event_from_link)
next
  assume "fst (strategy_link s p w) = Inl e"
  then show eq: "from_link s p w = from_nav s p (snd (strategy_link s p w))"
    unfolding from_link_def by (simp add: fallback_not_True)
  show "\<exists>evs. trace (snd (from_link s p w))
               = trace (snd (strategy_link s p w)) @ QueryEmbed # evs"
    unfolding eq by (rule first_event_from_nav)
next
  assume a: "fst (strategy_button s p w) \<noteq> Inr True
        \<and> fst (strategy_link s p (snd (strategy_button s p w))) \<noteq> Inr True
        \<and> fst (strategy_nav s p (snd (strategy_link s p (snd (strategy_button s p w))))) \<noteq> Inr True"
  have "download_with_browser s p w = from_link s p (snd (strategy_button s p w))"
    unfolding download_with_browser_def using a by (simp add: fallback_not_True)
  moreover have "from_link s p (snd (strategy_button s p w))
      = from_nav s p (snd (strategy_link s p (snd (strategy_button s p w))))"
    unfolding from_link_def using a by (simp add: fallback_not_True)
  ultimately show "fst (download_with_browser s p w) = Inr False"
    using a by (simp add: from_nav_False)
qed

theorem capturer_absorbs_exceptions_witness:
  "fst (strategy_button
         (quiet_capture\<lparr>c_button := Inl (Exception ''Error''), c_link := Inl (Exception ''Error'')\<rparr>)
         ''a.pdf'' fresh_world) = Inl (Exception ''Error'')
   \<and> fst (strategy_link
         (quiet_capture\<lparr>c_button := Inl (Exception ''Error''), c_link := Inl (Exception ''Error'')\<rparr>)
         ''a.pdf'' fresh_world) = Inl (Exception ''Error'')
   \<and> fst (download_with_browser
         (quiet_capture\<lparr>c_button := Inl (Exception ''Error''), c_link := Inl (Exception ''Error'')\<rparr>)
         ''a.pdf'' fresh_world) = Inr False"
proof -
  let ?s = "quiet_capture\<lparr>c_button := Inl (Exception ''Error''), c_link := Inl (Exception ''Error'')\<rparr>"
  have b: "strategy_button ?s ''a.pdf'' w = (Inl (Exception ''Error''), w\<lparr>trace := trace w @ [QueryButton]\<rparr>)"
    for w
    by (simp add: strategy_button_def and_then_def call_def quiet_capture_def)
  have l: "strategy_link ?s ''a.pdf'' w = (Inl (Exception ''Error''), w\<lparr>trace := trace w @ [QueryLink]\<rparr>)"
    for w
    by (simp add: strategy_link_def and_then_def call_def quiet_capture_def)
  have n: "fst (strategy_nav ?s ''a.pdf'' w) = Inr False" for w
    by (simp add: strategy_nav_def find_pdf_url_def and_then_def call_def ret_def quiet_capture_def
        falsy_def)
  have h: "fst (strategy_button ?s ''a.pdf'' fresh_world) \<noteq> Inr True
      \<and> fst (strategy_link ?s ''a.pdf'' (snd (strategy_button ?s ''a.pdf'' fresh_world))) \<noteq> Inr True
      \<and> fst (strategy_nav ?s ''a.pdf''
            (snd (strategy_link ?s ''a.pdf'' (snd (strategy_button ?s ''a.pdf'' fresh_world)))))
          \<noteq> Inr True"
    by (simp add: b l n)
  have "fst (download_with_browser ?s ''a.pdf'' fresh_world) = Inr False"
    using capturer_absorbs_exceptions [of ?s "''a.pdf''" fresh_world "Exception ''Error''"] h
    by blast
  then show ?thesis by (simp add: b l)
qed

lemma strategy_button_small:
  assumes "c_button s = Inr True" "c_button_click s = Inr ()" "fst (c_button_save s) = Inr ()"
    "snd (c_button_save s) = None \<or> (\<exists>n. snd (c_button_save s) = Some n \<and> n \<le> 1000)"
  shows "fst (strategy_button s p w) = Inr False"
  using assms
  by (auto simp: strategy_button_def and_then_def call_def save_as_def check_file_def valid_file_def)

lemma strategy_link_small:
  assumes "c_link s = Inr True" "c_link_click s = Inr ()" "fst (c_link_save s) = Inr ()"
    "snd (c_link_save s) = None \<or> (\<exists>n. snd (c_link_save s) = Some n \<and> n \<le> 1000)"
  shows "fst (strategy_link s p w) = Inr False"
  using assms
  by (auto simp: strategy_link_def and_then_def call_def save_as_def check_file_def valid_file_def)

text \<open>
  C7. \<open>download_with_browser\<close> returns \<open>True\<close> only with the target file present and
  larger than 1000 bytes in the state it returns in, which is the state its last size check
  saw. A save by the first (second) strategy that raises nothing and leaves no file, or one of
  at most 1000 bytes, makes that strategy fail, and the second (third) strategy runs next.
\<close>

theorem capturer_true_only_with_valid_file:
  "(fst (download_with_browser s p w) = Inr True \<longrightarrow>
      (\<exists>n. files (snd (download_with_browser s p w)) p = Some n \<and> n > 1000))
   \<and> (c_button s = Inr True \<and> c_button_click s = Inr () \<and> fst (c_button_save s) = Inr ()
        \<and> (snd (c_button_save s) = None \<or> (\<exists>n. snd (c_button_save s) = Some n \<and> n \<le> 1000))
      \<longrightarrow> fst (strategy_button s p w) = Inr False
        \<and> download_with_browser s p w = from_link s p (snd (strategy_button s p w))
        \<and> (\<exists>evs. trace (snd (download_with_browser s p w))
               = trace (snd (strategy_button s p w)) @ QueryLink # evs))
   \<and> (c_link s = Inr True \<and> c_link_click s = Inr () \<and> fst (c_link_save s) = Inr ()
        \<and> (snd (c_link_save s) = None \<or> (\<exists>n. snd (c_link_save s) = Some n \<and> n \<le> 1000))
      \<longrightarrow> fst (strategy_link s p w) = Inr False
        \<and> from_link s p w = from_nav s p (snd (strategy_link s p w))
        \<and> (\<exists>evs. trace (snd (from_link s p w))
               = trace (snd (strategy_link s p w)) @ QueryEmbed # evs))"
proof (intro conjI impI)
  assume t: "fst (download_with_browser s p w) = Inr True"
  obtain w1 where "download_with_browser s p w = (Inr True, w1)"
    using t by (cases "download_with_browser s p w") simp
  from validatesD [OF validates_download_with_browser this]
  have "valid_file (files (snd (download_with_browser s p w))) p"
    by (simp add: \<open>download_with_browser s p w = (Inr True, w1)\<close>)
  then show "\<exists>n. files (snd (download_with_browser s p w)) p = Some n \<and> n > 1000"
    by (auto simp: valid_file_def split: option.splits)
next
  assume a: "c_button s = Inr True \<and> c_button_click s = Inr () \<and> fst (c_button_save s) = Inr ()
        \<and> (snd (c_button_save s) = None \<or> (\<exists>n. snd (c_button_save s) = Some n \<and> n \<le> 1000))"
  then show f: "fst (strategy_button s p w) = Inr False"
    by (intro strategy_button_small) simp_all
  show eq: "download_with_browser s p w = from_link s p (snd (strategy_button s p w))"
    unfolding download_with_browser_def using f by (simp add: fallback_not_True)
  show "\<exists>evs. trace (snd (download_with_browser s p w))
               = trace (snd (strategy_button s p w)) @ QueryLink # evs"
    unfolding eq by (rule first_event_from_link)
next
  assume a: "c_link s = Inr True \<and> c_link_click s = Inr () \<and> fst (c_link_save s) = Inr ()
        \<and> (snd (c_link_save s) = None \<or> (\<exists>n. snd (c_link_save s) = Some n \<and> n \<le> 1000))"
  then show f: "fst (strategy_link s p w) = Inr False"
    by (intro strategy_link_small) simp_all
  show eq: "from_link s p w = from_nav s p (snd (strategy_link s p w))"
    unfolding from_link_def using f by (simp add: fallback_not_True)
  show "\<exists>evs. trace (snd (from_link s p w))
               = trace (snd (strategy_link s p w)) @ QueryEmbed # evs"
    unfolding eq by (rule first_event_from_nav)
qed

theorem capturer_true_only_with_valid_file_witness:
  "fst (download_with_browser
         (quiet_capture\<lparr>c_button := Inr True, c_button_save := (Inr (), Some 500),
            c_link := Inr True, c_link_save := (Inr (), Some 5000)\<rparr>) ''a.pdf'' fresh_world) = Inr True
   \<and> files (snd (download_with_browser
         (quiet_capture\<lparr>c_button := Inr True, c_button_save := (Inr (), Some 500),
            c_link := Inr True, c_link_save := (Inr (), Some 5000)\<rparr>) ''a.pdf'' fresh_world)) ''a.pdf''
       = Some 5000
   \<and> fst (strategy_button
         (quiet_capture\<lparr>c_button := Inr True, c_button_save := (Inr (), Some 500),
            c_link := Inr True, c_link_save := (Inr (), Some 5000)\<rparr>) ''a.pdf'' fresh_world) = Inr False
   \<and> fst (strategy_link
         (quiet_capture\<lparr>c_button := Inr True, c_button_save := (Inr (), Some 500),
            c_link := Inr True, c_link_save := (Inr (), None)\<rparr>) ''a.pdf'' fresh_world) = Inr False"
proof -
  let ?s = "quiet_capture\<lparr>c_button := Inr True, c_button_save := (Inr (), Some 500),
            c_link := Inr True, c_link_save := (Inr (), Some 5000)\<rparr>"
  let ?s' = "quiet_capture\<lparr>c_button := Inr True, c_button_save := (Inr (), Some 500),
            c_link := Inr True, c_link_save := (Inr (), None)\<rparr>"
  have d: "download_with_browser ?s ''a.pdf'' fresh_world
      = (Inr True, fresh_world\<lparr>files := (\<lambda>_. None)(''a.pdf'' := Some 5000),
           trace := [QueryButton, ClickButton, SaveAs ''a.pdf'', QueryLink, ClickLink, SaveAs ''a.pdf'']\<rparr>)"
    by (simp add: download_with_browser_def from_link_def strategy_button_def strategy_link_def
        and_then_def try_except_def call_def ret_def save_as_def check_file_def valid_file_def
        quiet_capture_def fresh_world_def)
  have hb: "c_button ?s = Inr True \<and> c_button_click ?s = Inr () \<and> fst (c_button_save ?s) = Inr ()
        \<and> (snd (c_button_save ?s) = None \<or> (\<exists>n. snd (c_button_save ?s) = Some n \<and> n \<le> 1000))"
    by (simp add: quiet_capture_def)
  have hl: "c_link ?s' = Inr True \<and> c_link_click ?s' = Inr () \<and> fst (c_link_save ?s') = Inr ()
        \<and> (snd (c_link_save ?s') = None \<or> (\<exists>n. snd (c_link_save ?s') = Some n \<and> n \<le> 1000))"
    by (simp add: quiet_capture_def)
  have "\<exists>n. files (snd (download_with_browser ?s ''a.pdf'' fresh_world)) ''a.pdf'' = Some n \<and> n > 1000"
    using capturer_true_only_with_valid_file [of ?s "''a.pdf''" fresh_world] d by simp
  moreover have "fst (strategy_button ?s ''a.pdf'' fresh_world) = Inr False"
    using capturer_true_only_with_valid_file [of ?s "''a.pdf''" fresh_world] hb by blast
  moreover have "fst (strategy_link ?s' ''a.pdf'' fresh_world) = Inr False"
    using capturer_true_only_with_valid_file [of ?s' "''a.pdf''" fresh_world] hl by blast
  ultimately show ?thesis using d by simp
qed

section \<open>The content detector\<close>

lemma detect_step:
  "elapsed < MAX_WAIT_TIME \<Longrightarrow> classify (page k) = Inr CHALLENGE \<or> classify (page k) = Inr LOADING \<Longrightarrow>
     detect page elapsed k w
       = detect page (elapsed + took (page k) + CHECK_INTERVAL) (Suc k) (w\<lparr>trace := trace w @ [Poll]\<rparr>)"
  by (subst detect.simps) (auto simp: poll_def call_def)

lemma detect_ready:
  "elapsed < MAX_WAIT_TIME \<Longrightarrow> classify (page k) = Inr READY \<Longrightarrow>
     detect page elapsed k w = (Inr True, w\<lparr>trace := trace w @ [Poll]\<rparr>)"
  by (subst detect.simps) (simp add: poll_def call_def)

lemma detect_unavailable:
  "elapsed < MAX_WAIT_TIME \<Longrightarrow> classify (page k) = Inr UNAVAILABLE \<Longrightarrow>
     detect page elapsed k w = (Inr False, w\<lparr>trace := trace w @ [Poll]\<rparr>)"
  by (subst detect.simps) (simp add: poll_def call_def)

lemma detect_raises:
  "elapsed < MAX_WAIT_TIME \<Longrightarrow> classify (page k) = Inl e \<Longrightarrow>
     detect page elapsed k w = (Inl e, w\<lparr>trace := trace w @ [Poll]\<rparr>)"
  by (subst detect.simps) (simp add: poll_def call_def)

lemma detect_timeout:
  "\<not> elapsed < MAX_WAIT_TIME \<Longrightarrow> detect page elapsed k w = (Inr False, w)"
  by (subst detect.simps) simp

text \<open>
  C4. A title that contains the challenge marker, in any case of letters, makes the pass
  CHALLENGE whatever the four content queries would find, so never READY; without the
  challenge marker the unavailable marker makes it UNAVAILABLE, again before the content is
  looked at. In the loop such a pass sleeps and polls again.
\<close>

theorem challenge_title_precedes_content:
  "(title s = Inr t \<and> contains ''robot'' (lower t) \<longrightarrow>
      classify s = Inr CHALLENGE \<and> classify s \<noteq> Inr READY)
   \<and> (title s = Inr t \<and> \<not> contains ''robot'' (lower t) \<and> contains ''not available'' (lower t) \<longrightarrow>
      classify s = Inr UNAVAILABLE)
   \<and> (title (page k) = Inr t \<and> contains ''robot'' (lower t) \<and> elapsed < MAX_WAIT_TIME \<longrightarrow>
      detect page elapsed k w
        = detect page (elapsed + took (page k) + CHECK_INTERVAL) (Suc k)
            (w\<lparr>trace := trace w @ [Poll]\<rparr>))"
proof -
  have c1: "title s = Inr t \<and> contains ''robot'' (lower t) \<longrightarrow>
      classify s = Inr CHALLENGE \<and> classify s \<noteq> Inr READY"
    by (simp add: classify_def)
  have c2: "title s = Inr t \<and> \<not> contains ''robot'' (lower t)
      \<and> contains ''not available'' (lower t) \<longrightarrow> classify s = Inr UNAVAILABLE"
    by (simp add: classify_def)
  have c3: "title (page k) = Inr t \<and> contains ''robot'' (lower t) \<and> elapsed < MAX_WAIT_TIME \<longrightarrow>
      detect page elapsed k w
        = detect page (elapsed + took (page k) + CHECK_INTERVAL) (Suc k)
            (w\<lparr>trace := trace w @ [Poll]\<rparr>)"
  proof
    assume a: "title (page k) = Inr t \<and> contains ''robot'' (lower t) \<and> elapsed < MAX_WAIT_TIME"
    then have "classify (page k) = Inr CHALLENGE" by (simp add: classify_def)
    then show "detect page elapsed k w
        = detect page (elapsed + took (page k) + CHECK_INTERVAL) (Suc k)
            (w\<lparr>trace := trace w @ [Poll]\<rparr>)"
      using a by (simp add: detect_step)
  qed
  from c1 c2 c3 show ?thesis by (intro conjI)
qed

theorem challenge_title_precedes_content_witness:
  "title (plain_snapshot\<lparr>title := Inr ''Are you a Robot?'', has_embed := Inr True,
       has_iframe := Inr True, has_link := Inr True, has_button := Inr True\<rparr>)
     = Inr ''Are you a Robot?''
   \<and> contains ''robot'' (lower ''Are you a Robot?'')
   \<and> has_content (plain_snapshot\<lparr>title := Inr ''Are you a Robot?'', has_embed := Inr True,
       has_iframe := Inr True, has_link := Inr True, has_button := Inr True\<rparr>) = Inr True
   \<and> classify (plain_snapshot\<lparr>title := Inr ''Are you a Robot?'', has_embed := Inr True,
       has_iframe := Inr True, has_link := Inr True, has_button := Inr True\<rparr>) = Inr CHALLENGE
   \<and> \<not> contains ''robot'' (lower ''Article Not Available'')
   \<and> contains ''not available'' (lower ''Article Not Available'')
   \<and> classify (plain_snapshot\<lparr>title := Inr ''Article Not Available'', has_link := Inr True\<rparr>)
       = Inr UNAVAILABLE
   \<and> (0::nat) < MAX_WAIT_TIME
   \<and> detect (\<lambda>_. plain_snapshot\<lparr>title := Inr ''Are you a Robot?'', has_embed := Inr True,
         has_iframe := Inr True, has_link := Inr True, has_button := Inr True\<rparr>) 0 0 fresh_world
       = detect (\<lambda>_. plain_snapshot\<lparr>title := Inr ''Are you a Robot?'', has_embed := Inr True,
         has_iframe := Inr True, has_link := Inr True, has_button := Inr True\<rparr>) 1 1
           (fresh_world\<lparr>trace := [Poll]\<rparr>)"
proof -
  let ?s = "plain_snapshot\<lparr>title := Inr ''Are you a Robot?'', has_embed := Inr True,
       has_iframe := Inr True, has_link := Inr True, has_button := Inr True\<rparr>"
  let ?u = "plain_snapshot\<lparr>title := Inr ''Article Not Available'', has_link := Inr True\<rparr>"
  have t: "title ?s = Inr ''Are you a Robot?''" by simp
  have r: "contains ''robot'' (lower ''Are you a Robot?'')"
    by (simp add: lower_def lower_char_def startswith_def)
  have c: "has_content ?s = Inr True" by (simp add: has_content_def)
  have tu: "title ?u = Inr ''Article Not Available''" by simp
  have nr: "\<not> contains ''robot'' (lower ''Article Not Available'')"
    by (simp add: lower_def lower_char_def startswith_def)
  have na: "contains ''not available'' (lower ''Article Not Available'')"
    by (simp add: lower_def lower_char_def startswith_def)
  have m: "(0::nat) < MAX_WAIT_TIME" by (simp add: MAX_WAIT_TIME_def)
  have k: "took ?s = 0" "trace fresh_world = []"
    by (simp_all add: plain_snapshot_def fresh_world_def)
  have "classify ?s = Inr CHALLENGE"
    using challenge_title_precedes_content [of ?s "''Are you a Robot?''"] t r by blast
  moreover have "classify ?u = Inr UNAVAILABLE"
    using challenge_title_precedes_content [of ?u "''Article Not Available''"] tu nr na by blast
  moreover have "detect (\<lambda>_. ?s) 0 0 fresh_world
      = detect (\<lambda>_. ?s) (0 + took ?s + CHECK_INTERVAL) (Suc 0)
          (fresh_world\<lparr>trace := trace fresh_world @ [Poll]\<rparr>)"
    using challenge_title_precedes_content [of "?s" "''Are you a Robot?''" "\<lambda>_. ?s" 0 0 fresh_world]
      t r m by blast
  ultimately show ?thesis using t r c nr na m k by (simp add: CHECK_INTERVAL_def)
qed

section \<open>The orchestrator\<close>

lemma mark_downloaded_trace: "trace (snd (mark_downloaded now wo d w)) = trace w"
  by (simp add: mark_downloaded_def save_def and_then_def modify_def write_progress_def
      split: write_outcome.splits)

lemma mark_downloaded_Written: "fst (mark_downloaded now Written d w) = Inr ()"
  by (simp add: mark_downloaded_def save_def and_then_def modify_def write_progress_def)

lemma mark_downloaded_member: "d \<in> set (downloaded (data (snd (mark_downloaded now wo d w))))"
  by (simp add: data_mark_downloaded add_downloaded_def Let_def)

text \<open>
  C3, amended. With the target file present and larger than 1000 bytes, the pass for the
  identifier calls \<open>mark_downloaded\<close> and does nothing else: no page is opened, nothing is
  polled, the capturer does not run; the identifier is in the downloaded list afterwards, and
  the pass ends normally when the ledger write does.
\<close>

theorem existing_file_short_circuit:
  "files w (pdf_path_of doi) = Some n \<and> n > 1000 \<longrightarrow>
     trace (snd (process_doi mirrors doi sc w)) = trace w @ [MarkDownloadedCall doi]
     \<and> doi \<in> set (downloaded (data (snd (process_doi mirrors doi sc w))))
     \<and> (d_write sc = Written \<longrightarrow> fst (process_doi mirrors doi sc w) = Inr ())"
proof
  assume a: "files w (pdf_path_of doi) = Some n \<and> n > 1000"
  then have v: "check_file (pdf_path_of doi) w = (Inr True, w)" by (simp add: check_file_def)
  let ?w1 = "w\<lparr>trace := trace w @ [MarkDownloadedCall doi]\<rparr>"
  obtain r w2 where m: "mark_downloaded (d_now sc) (d_write sc) doi ?w1 = (r, w2)"
    by (cases "mark_downloaded (d_now sc) (d_write sc) doi ?w1")
  have tr: "trace w2 = trace w @ [MarkDownloadedCall doi]"
    using mark_downloaded_trace [of "d_now sc" "d_write sc" doi ?w1] m by simp
  have mem: "doi \<in> set (downloaded (data w2))"
    using mark_downloaded_member [of doi "d_now sc" "d_write sc" ?w1] m by simp
  have ok: "d_write sc = Written \<longrightarrow> r = Inr ()"
    using mark_downloaded_Written [of "d_now sc" doi ?w1] m by auto
  have p: "process_doi mirrors doi sc w
      = (case r of Inl e \<Rightarrow> (Inl e, w2)
         | Inr u \<Rightarrow> (Inr (), w2\<lparr>v_success_count := v_success_count w2 + 1\<rparr>))"
    using v m by (simp add: process_doi_def Let_def and_then_def emit_def modify_def split: sum.splits)
  show "trace (snd (process_doi mirrors doi sc w)) = trace w @ [MarkDownloadedCall doi]
     \<and> doi \<in> set (downloaded (data (snd (process_doi mirrors doi sc w))))
     \<and> (d_write sc = Written \<longrightarrow> fst (process_doi mirrors doi sc w) = Inr ())"
    using tr mem ok by (cases r) (simp_all add: p)
qed

lemma pdf_path_of_example: "pdf_path_of ''10.1/a'' = ''10.1_a.pdf''"
  by (simp add: pdf_path_of_def sanitize_filename_def forbidden_def)

lemma classify_unavailable: "classify (a_polls unavailable_attempt k) = Inr UNAVAILABLE"
  by (simp add: unavailable_attempt_def plain_snapshot_def classify_def lower_def lower_char_def
      startswith_def)

lemma classify_ready: "classify (a_polls ready_attempt k) = Inr READY"
  by (simp add: ready_attempt_def plain_snapshot_def classify_def lower_def lower_char_def
      startswith_def has_content_def)

lemma detect_unavailable_attempt:
  "detect (a_polls unavailable_attempt) 0 0 w = (Inr False, w\<lparr>trace := trace w @ [Poll]\<rparr>)"
  by (rule detect_unavailable) (simp_all add: MAX_WAIT_TIME_def classify_unavailable)

lemma detect_ready_attempt:
  "detect (a_polls ready_attempt) 0 0 w = (Inr True, w\<lparr>trace := trace w @ [Poll]\<rparr>)"
  by (rule detect_ready) (simp_all add: MAX_WAIT_TIME_def classify_ready)

lemma unavailable_attempt_fields:
  "a_new_page unavailable_attempt = Inr ()" "a_goto unavailable_attempt = Inr ()"
  "a_close unavailable_attempt = Inr ()"
  by (simp_all add: unavailable_attempt_def)

lemma ready_attempt_fields:
  "a_new_page ready_attempt = Inr ()" "a_goto ready_attempt = Inr ()"
  "a_close_again ready_attempt = Inr ()"
  by (simp_all add: ready_attempt_def)

lemma attempt_unavailable:
  "try_except (attempt_body url p unavailable_attempt) (\<lambda>e. attempt_handler unavailable_attempt) w
     = (Inr (v_downloaded w),
        w\<lparr>v_page := True, trace := trace w @ [NewPage url, Goto url, Poll, ClosePage]\<rparr>)"
  by (simp add: attempt_body_def try_except_def and_then_def call_def ret_def modify_def
      detect_unavailable_attempt unavailable_attempt_fields)

text \<open>
  C3 as stated, for a file of at least 1000 bytes, fails at exactly 1000 bytes: the test is
  \<open>st_size > 1000\<close>, the mirror is visited and the identifier is marked failed.
\<close>

theorem existing_file_short_circuit_counterexample:
  "files (fresh_world\<lparr>files := (\<lambda>_. None)(''10.1_a.pdf'' := Some 1000)\<rparr>) (pdf_path_of ''10.1/a'')
     = Some 1000
   \<and> trace (snd (process_doi [''https://m1''] ''10.1/a'' unavailable_script
        (fresh_world\<lparr>files := (\<lambda>_. None)(''10.1_a.pdf'' := Some 1000)\<rparr>)))
     = [NewPage ''https://m1/10.1/a'', Goto ''https://m1/10.1/a'', Poll, ClosePage,
        MarkFailedCall ''10.1/a'', LogMessage ''10.1/a'']"
  by (simp add: pdf_path_of_example process_doi_def check_file_def attempt_unavailable Let_def
      and_then_def modify_def ret_def emit_def call_def mark_failed_def save_def
      write_progress_def unavailable_script_def fresh_world_def)

theorem existing_file_short_circuit_witness:
  "files (fresh_world\<lparr>files := (\<lambda>_. None)(''10.1_a.pdf'' := Some 1001)\<rparr>) (pdf_path_of ''10.1/a'')
     = Some 1001 \<and> (1001::nat) > 1000
   \<and> trace (snd (process_doi [''https://m1''] ''10.1/a'' unavailable_script
        (fresh_world\<lparr>files := (\<lambda>_. None)(''10.1_a.pdf'' := Some 1001)\<rparr>)))
     = [MarkDownloadedCall ''10.1/a'']
   \<and> d_write unavailable_script = Written
   \<and> fst (process_doi [''https://m1''] ''10.1/a'' unavailable_script
        (fresh_world\<lparr>files := (\<lambda>_. None)(''10.1_a.pdf'' := Some 1001)\<rparr>)) = Inr ()"
proof -
  let ?w = "fresh_world\<lparr>files := (\<lambda>_. None)(''10.1_a.pdf'' := Some 1001)\<rparr>"
  have f: "files ?w (pdf_path_of ''10.1/a'') = Some 1001 \<and> (1001::nat) > 1000"
    by (simp add: pdf_path_of_example)
  have w: "d_write unavailable_script = Written" by (simp add: unavailable_script_def)
  have t: "trace ?w = []" by (simp add: fresh_world_def)
  show ?thesis
    using existing_file_short_circuit [of ?w "''10.1/a''" 1001 "[''https://m1'']" unavailable_script] f w t
    by simp
qed

lemma capture_ready:
  "download_with_browser (a_capture ready_attempt) p w
     = (Inr True, w\<lparr>files := (files w)(p := Some 5000),
          unstatable := (unstatable w)(p := None),
          trace := trace w @ [QueryButton, ClickButton, SaveAs p]\<rparr>)"
  by (simp add: download_with_browser_def strategy_button_def and_then_def try_except_def
      call_def ret_def save_as_def check_file_def ready_attempt_def quiet_capture_def)

lemma attempt_ready_close_raises:
  "try_except (attempt_body url p (ready_attempt\<lparr>a_close := Inl e\<rparr>))
       (\<lambda>e'. attempt_handler (ready_attempt\<lparr>a_close := Inl e\<rparr>)) w
     = (Inr False, w\<lparr>v_page := True, files := (files w)(p := Some 5000),
          unstatable := (unstatable w)(p := None), v_downloaded := True,
          trace := trace w @ [NewPage url, Goto url, Poll, QueryButton, ClickButton, SaveAs p,
            ClosePage, ClosePage]\<rparr>)"
  by (simp add: attempt_body_def attempt_handler_def try_except_def and_then_def call_def ret_def
      modify_def detect_ready_attempt capture_ready ready_attempt_fields)

text \<open>
  C5 at the configured mirrors: the first mirror's page is ready and the capture succeeds,
  then \<open>page.close()\<close> raises. The handler swallows the exception and closes the page
  again, \<open>break\<close> is not reached and the second mirror is visited before the identifier
  is marked downloaded.
\<close>

theorem mirror_loop_goes_on_after_capture:
  "trace (snd (process_doi SCIHUB_MIRRORS ''10.1/a''
       (unavailable_script\<lparr>d_attempts := (\<lambda>i. if i = 0
          then ready_attempt\<lparr>a_close := Inl (Exception ''Error'')\<rparr> else unavailable_attempt)\<rparr>)
       fresh_world))
     = [NewPage ''https://sci-hub.st/10.1/a'', Goto ''https://sci-hub.st/10.1/a'', Poll,
        QueryButton, ClickButton, SaveAs ''10.1_a.pdf'', ClosePage, ClosePage,
        NewPage ''https://sci-hub.ru/10.1/a'', Goto ''https://sci-hub.ru/10.1/a'', Poll, ClosePage,
        MarkDownloadedCall ''10.1/a'', LogMessage ''10.1/a'']"
  by (simp add: SCIHUB_MIRRORS_def pdf_path_of_example process_doi_def check_file_def Let_def
      attempt_unavailable attempt_ready_close_raises
      and_then_def modify_def ret_def emit_def call_def mark_downloaded_def save_def
      write_progress_def unavailable_script_def fresh_world_def)

text \<open>
  What holds of the mirror loop for every script: it only adds browser events and never
  raises; an attempt that leaves the flag unset is followed by the next mirror; when no
  mirror sets the flag, \<open>mark_failed\<close> is called once, after all browser events; and an
  attempt that gets as far as \<open>break\<close> ends the loop.
\<close>

lemma trace_detect:
  "\<exists>evs. trace (snd (detect page elapsed k w)) = trace w @ evs \<and> list_all browser_event evs"
proof (induction "MAX_WAIT_TIME - elapsed" arbitrary: elapsed k w rule: less_induct)
  case less
  show ?case
  proof (cases "elapsed < MAX_WAIT_TIME")
    case False
    then show ?thesis by (simp add: detect_timeout)
  next
    case True
    let ?w1 = "w\<lparr>trace := trace w @ [Poll]\<rparr>"
    let ?e1 = "elapsed + took (page k) + CHECK_INTERVAL"
    have "MAX_WAIT_TIME - ?e1 < MAX_WAIT_TIME - elapsed"
      using True by (simp add: CHECK_INTERVAL_def)
    from less [OF this, of "Suc k" ?w1]
    obtain evs where step: "trace (snd (detect page ?e1 (Suc k) ?w1)) = trace ?w1 @ evs"
      "list_all browser_event evs" by auto
    show ?thesis
    proof (cases "classify (page k)")
      case (Inl e)
      then show ?thesis using True by (simp add: detect_raises)
    next
      case (Inr st)
      then show ?thesis using True step
        by (cases st) (simp_all add: detect_step detect_unavailable detect_ready)
    qed
  qed
qed

lemma emits_detect: "emits browser_event (detect page elapsed k)"
  by (rule emitsI) (rule trace_detect)

lemma emits_attempt_body: "emits browser_event (attempt_body url p a)"
  unfolding attempt_body_def
  by (intro emits_intros emits_detect emits_download_with_browser emits_modify)
    (simp_all add: emits_def ret_def)

lemma attempt_handler_cases:
  "attempt_handler a w = (Inr False, w) \<or>
   attempt_handler a w = (Inr False, w\<lparr>trace := trace w @ [ClosePage]\<rparr>)"
  by (cases "a_close_again a")
    (simp_all add: attempt_handler_def and_then_def try_except_def call_def raise_def ret_def)

lemma emits_attempt_handler: "emits browser_event (attempt_handler a)"
proof (rule emitsI)
  fix w
  from attempt_handler_cases [of a w]
  show "\<exists>evs. trace (snd (attempt_handler a w)) = trace w @ evs \<and> list_all browser_event evs"
    by auto
qed

lemma emits_mirror_loop: "emits browser_event (mirror_loop ms i doi p sc)"
  by (induction ms arbitrary: i)
    (auto intro!: emits_intros emits_attempt_body emits_attempt_handler)

lemma attempt_returns:
  "\<exists>b. fst (try_except (attempt_body url p a) (\<lambda>e. attempt_handler a) w) = Inr b"
proof -
  obtain r w1 where b: "attempt_body url p a w = (r, w1)" by (cases "attempt_body url p a w")
  show ?thesis
  proof (cases r)
    case (Inl e)
    then show ?thesis using b attempt_handler_cases [of a w1]
      by (auto simp: try_except_def)
  next
    case (Inr x)
    then show ?thesis using b by (simp add: try_except_def)
  qed
qed

lemma mirror_loop_returns: "fst (mirror_loop ms i doi p sc w) = Inr ()"
proof (induction ms arbitrary: i w)
  case Nil
  then show ?case by (simp add: ret_def)
next
  case (Cons m ms)
  let ?A = "try_except (attempt_body (m @ ''/'' @ doi) p (sc i)) (\<lambda>e. attempt_handler (sc i))"
  obtain r w1 where a: "?A w = (r, w1)" by (cases "?A w")
  from attempt_returns [of "m @ ''/'' @ doi" p "sc i" w] a obtain b where "r = Inr b" by auto
  then show ?case using a Cons by (simp add: and_then_def ret_def)
qed

text \<open>A mirror attempt reaches break only with the flag set.\<close>

lemma attempt_stop_flag:
  assumes "try_except (attempt_body url p a) (\<lambda>e. attempt_handler a) w = (r, w1)"
    and "r = Inr True"
  shows "v_downloaded w1"
proof -
  obtain rb wb where b: "attempt_body url p a w = (rb, wb)" by (cases "attempt_body url p a w")
  show ?thesis
  proof (cases rb)
    case (Inl e)
    then show ?thesis using assms b attempt_handler_cases [of a wb]
      by (auto simp: try_except_def)
  next
    case (Inr x)
    then have "attempt_body url p a w = (Inr True, w1)" using assms b
      by (simp add: try_except_def)
    then show ?thesis
      by (auto simp: attempt_body_def and_then_def ret_def split: prod.splits sum.splits if_splits)
  qed
qed

lemma mirror_fallback:
  assumes "\<not> v_downloaded (snd (try_except (attempt_body (m1 @ ''/'' @ doi) p (sc i))
      (\<lambda>e. attempt_handler (sc i)) w))"
  shows "mirror_loop (m1 # m2 # ms) i doi p sc w
      = mirror_loop (m2 # ms) (Suc i) doi p sc
          (snd (try_except (attempt_body (m1 @ ''/'' @ doi) p (sc i))
             (\<lambda>e. attempt_handler (sc i)) w))"
    and "\<exists>evs. trace (snd (mirror_loop (m1 # m2 # ms) i doi p sc w))
      = trace (snd (try_except (attempt_body (m1 @ ''/'' @ doi) p (sc i))
                (\<lambda>e. attempt_handler (sc i)) w))
          @ NewPage (m2 @ ''/'' @ doi) # evs"
proof -
  let ?A = "try_except (attempt_body (m1 @ ''/'' @ doi) p (sc i)) (\<lambda>e. attempt_handler (sc i))"
  obtain r w1 where a: "?A w = (r, w1)" by (cases "?A w")
  from attempt_returns [of "m1 @ ''/'' @ doi" p "sc i" w] a have "\<exists>b. r = Inr b" by auto
  moreover have "r \<noteq> Inr True" using attempt_stop_flag [OF a] assms a by auto
  ultimately have r: "r = Inr False" by auto
  have step: "mirror_loop (m1 # m2 # ms) i doi p sc w = mirror_loop (m2 # ms) (Suc i) doi p sc w1"
    using a r by (simp add: and_then_def del: mirror_loop.simps(2))
      (simp add: and_then_def a)
  show eq: "mirror_loop (m1 # m2 # ms) i doi p sc w
      = mirror_loop (m2 # ms) (Suc i) doi p sc (snd (?A w))"
    using step a by simp
  have "\<exists>evs. trace (snd (mirror_loop (m2 # ms) (Suc i) doi p sc w1))
      = trace w1 @ NewPage (m2 @ ''/'' @ doi) # evs"
  proof -
    let ?B = "attempt_body (m2 @ ''/'' @ doi) p (sc (Suc i))"
    let ?H = "attempt_handler (sc (Suc i))"
    have b: "\<exists>evs. trace (snd (?B w')) = trace w' @ NewPage (m2 @ ''/'' @ doi) # evs" for w'
      unfolding attempt_body_def
      by (rule first_event_call [where P = browser_event])
        (intro emits_intros emits_detect emits_download_with_browser emits_modify;
          simp add: emits_def ret_def)
    obtain rb wb where bw: "try_except ?B (\<lambda>e. ?H) w1 = (rb, wb)"
      by (cases "try_except ?B (\<lambda>e. ?H) w1")
    obtain rc wc where cw: "?B w1 = (rc, wc)" by (cases "?B w1")
    from b [of w1] cw obtain evs where e1: "trace wc = trace w1 @ NewPage (m2 @ ''/'' @ doi) # evs"
      by auto
    have "\<exists>evs'. trace wb = trace wc @ evs'"
      using bw cw attempt_handler_cases [of "sc (Suc i)" wc]
      by (cases rc) (auto simp: try_except_def)
    then obtain evs' where e2: "trace wb = trace w1 @ NewPage (m2 @ ''/'' @ doi) # (evs @ evs')"
      using e1 by auto
    from emitsD [OF emits_mirror_loop, of ms "Suc (Suc i)" doi p sc wb]
    obtain evs2 where e3: "trace (snd (mirror_loop ms (Suc (Suc i)) doi p sc wb)) = trace wb @ evs2"
      by auto
    from attempt_returns [of "m2 @ ''/'' @ doi" p "sc (Suc i)" w1] bw obtain b' where rb: "rb = Inr b'"
      by auto
    show ?thesis using bw e2 e3 rb
      by (cases b') (auto simp: and_then_def ret_def)
  qed
  then show "\<exists>evs. trace (snd (mirror_loop (m1 # m2 # ms) i doi p sc w))
      = trace (snd (?A w)) @ NewPage (m2 @ ''/'' @ doi) # evs"
    unfolding step using a by simp
qed

text \<open>When no mirror set the flag, mark_failed is called once, after all browser events.\<close>

lemma all_mirrors_failed:
  assumes nv: "fst (check_file (pdf_path_of doi) w) = Inr False"
    and nd: "\<not> v_downloaded (snd (mirror_loop mirrors 0 doi (pdf_path_of doi) (d_attempts sc)
                (w\<lparr>v_downloaded := False\<rparr>)))"
  shows "\<exists>evs. trace (snd (process_doi mirrors doi sc w))
      = trace w @ evs @ MarkFailedCall doi # (if d_write sc = Written then [LogMessage doi] else [])
      \<and> list_all browser_event evs"
proof -
  let ?w0 = "w\<lparr>v_downloaded := False\<rparr>"
  let ?L = "mirror_loop mirrors 0 doi (pdf_path_of doi) (d_attempts sc)"
  have c: "check_file (pdf_path_of doi) w = (Inr False, w)"
    using nv by (auto simp: check_file_def split: option.splits)
  obtain w1 where l: "?L ?w0 = (Inr (), w1)"
    using mirror_loop_returns [of mirrors 0 doi "pdf_path_of doi" "d_attempts sc" ?w0]
    by (cases "?L ?w0") simp
  from emitsD [OF emits_mirror_loop, of mirrors 0 doi "pdf_path_of doi" "d_attempts sc" ?w0] l
  obtain evs where e: "trace w1 = trace w @ evs" "list_all browser_event evs" by auto
  have f: "\<not> v_downloaded w1" using nd l by simp
  have t: "trace (snd (process_doi mirrors doi sc w))
      = trace w1 @ MarkFailedCall doi # (if d_write sc = Written then [LogMessage doi] else [])"
    using c l f
    by (cases "d_write sc")
      (simp_all add: process_doi_def Let_def and_then_def modify_def emit_def call_def
        mark_failed_def save_def write_progress_def)
  show ?thesis using t e by auto
qed

text \<open>An exception of the test of line 236 leaves the pass before anything else happens.\<close>

lemma exists_raises_leaves_pass:
  "files w (pdf_path_of doi) = None \<Longrightarrow> unstatable w (pdf_path_of doi) = Some e \<Longrightarrow>
     process_doi mirrors doi sc w = (Inl e, w)"
  by (simp add: process_doi_def Let_def and_then_def check_file_def)

text \<open>The loop stops at a mirror whose attempt reaches break.\<close>

lemma mirror_loop_stops:
  "fst (attempt_body (m @ ''/'' @ doi) p (sc i) w) = Inr True \<Longrightarrow>
     mirror_loop (m # ms) i doi p sc w = (Inr (), snd (attempt_body (m @ ''/'' @ doi) p (sc i) w))"
  by (cases "attempt_body (m @ ''/'' @ doi) p (sc i) w")
    (simp add: and_then_def try_except_def ret_def)

end
